theory Spec2Isabelle
  imports Main "HOL-Library.Multiset"
begin

section \<open>Status record (modules/status\_manager.py)\<close>

text \<open>
  \<^verbatim>\<open>StatusManager.current_status\<close> is a dict with six fixed keys; each element of
  \<^verbatim>\<open>errors\<close> is a dict with the keys \<^verbatim>\<open>timestamp\<close> and \<^verbatim>\<open>message\<close>.
  The clock (\<^verbatim>\<open>datetime.now()\<close>) is not part of the program state, so every operation
  that reads it takes the text it would have produced as an argument.
\<close>

record error_entry =
  err_timestamp :: string
  err_message :: string

record status =
  daemon_status :: string
  last_activity :: "string option"
  message :: string
  processing_count :: int
  errors :: "error_entry list"
  uptime :: "string option"

record status_manager =
  current_status :: status
  status_file :: "status option"

text \<open>Python's \<^verbatim>\<open>xs[-n:]\<close> for \<^verbatim>\<open>n > 0\<close>: the last \<open>n\<close> elements, all of them when
  the list is shorter.\<close>

definition py_last_n :: "nat \<Rightarrow> 'a list \<Rightarrow> 'a list" where
  "py_last_n n xs = drop (length xs - n) xs"

text \<open>\<^verbatim>\<open>_save_status\<close> writes the whole record to the status file and swallows every
  exception; the flag says whether the write went through.\<close>

definition save_status :: "bool \<Rightarrow> status_manager \<Rightarrow> status_manager" where
  "save_status written sm =
     (if written then sm\<lparr>status_file := Some (current_status sm)\<rparr> else sm)"

definition initial_status :: status where
  "initial_status =
     \<lparr>daemon_status = ''stopped'', last_activity = None, message = ''Service not started'',
      processing_count = 0, errors = [], uptime = None\<rparr>"

definition status_manager_init :: "bool \<Rightarrow> status_manager" where
  "status_manager_init written =
     save_status written \<lparr>current_status = initial_status, status_file = None\<rparr>"

definition set_status :: "string \<Rightarrow> string \<Rightarrow> string \<Rightarrow> string \<Rightarrow> bool \<Rightarrow>
    status_manager \<Rightarrow> status_manager" where
  "set_status msg st now_iso up written sm =
     save_status written
       (sm\<lparr>current_status := (current_status sm)
            \<lparr>daemon_status := st, message := msg,
             last_activity := Some now_iso, uptime := Some up\<rparr>\<rparr>)"

definition add_error :: "string \<Rightarrow> string \<Rightarrow> bool \<Rightarrow> status_manager \<Rightarrow> status_manager" where
  "add_error error_message now_iso written sm =
     (let error_entry = \<lparr>err_timestamp = now_iso, err_message = error_message\<rparr>;
          appended = errors (current_status sm) @ [error_entry];
          kept = (if length appended > 10 then py_last_n 10 appended else appended)
      in save_status written (sm\<lparr>current_status := (current_status sm)\<lparr>errors := kept\<rparr>\<rparr>))"

definition increment_processing_count :: "bool \<Rightarrow> status_manager \<Rightarrow> status_manager" where
  "increment_processing_count written sm =
     save_status written
       (sm\<lparr>current_status := (current_status sm)
            \<lparr>processing_count := processing_count (current_status sm) + 1\<rparr>\<rparr>)"

text \<open>\<^verbatim>\<open>get_status\<close> returns a copy and changes nothing; \<^verbatim>\<open>cleanup\<close> unlinks the
  status file (or fails silently).\<close>

definition get_status :: "status_manager \<Rightarrow> status" where
  "get_status sm = current_status sm"

definition cleanup_status :: "bool \<Rightarrow> status_manager \<Rightarrow> status_manager" where
  "cleanup_status unlinked sm = (if unlinked then sm\<lparr>status_file := None\<rparr> else sm)"

datatype status_op =
    SetStatus string string string string bool
  | AddError string string bool
  | IncrementProcessingCount bool
  | GetStatus
  | Cleanup bool

fun apply_status_op :: "status_manager \<Rightarrow> status_op \<Rightarrow> status_manager" where
  "apply_status_op sm (SetStatus msg st now_iso up w) = set_status msg st now_iso up w sm"
| "apply_status_op sm (AddError msg now_iso w) = add_error msg now_iso w sm"
| "apply_status_op sm (IncrementProcessingCount w) = increment_processing_count w sm"
| "apply_status_op sm GetStatus = sm"
| "apply_status_op sm (Cleanup u) = cleanup_status u sm"

definition run_status_ops :: "status_manager \<Rightarrow> status_op list \<Rightarrow> status_manager" where
  "run_status_ops sm ops = foldl apply_status_op sm ops"

text \<open>The error records that a sequence of operations adds, oldest first.\<close>

fun errors_added :: "status_op list \<Rightarrow> error_entry list" where
  "errors_added [] = []"
| "errors_added (AddError msg now_iso w # ops) =
     \<lparr>err_timestamp = now_iso, err_message = msg\<rparr> # errors_added ops"
| "errors_added (_ # ops) = errors_added ops"

fun is_add_error :: "status_op \<Rightarrow> bool" where
  "is_add_error (AddError _ _ _) = True"
| "is_add_error _ = False"

definition errs :: "status_manager \<Rightarrow> error_entry list" where
  "errs sm = errors (current_status sm)"


section \<open>Device monitor (modules/usb\_monitor.py)\<close>

text \<open>
  A device snapshot is the dict built by \<^verbatim>\<open>_get_device_info\<close> and
  \<^verbatim>\<open>_get_usb_storage_devices\<close>. The monitor keeps \<^verbatim>\<open>known_devices\<close> (a Python
  set) and \<^verbatim>\<open>device_info_cache\<close> (a dict from device path to snapshot). A Python set
  has no specified iteration order; the model keeps the members in a duplicate-free list
  and iterates in that order. The two callbacks are recorded, in call order, in
  \<open>callbacks\<close>; they belong to the daemon (\<^verbatim>\<open>on_usb_inserted\<close>, \<^verbatim>\<open>on_usb_removed\<close>), which
  only logs, sets the status and puts a job on an unbounded queue.
\<close>

record device_info =
  device :: string
  size :: string
  label :: string
  mount_point :: "string option"
  transport :: string

datatype callback = Inserted device_info | Removed device_info

record usb_monitor =
  known_devices :: "string list"
  device_info_cache :: "string \<rightharpoonup> device_info"
  callbacks :: "callback list"

text \<open>
  What the platform answers while one event or one polling pass is handled:
  \<^verbatim>\<open>udevadm\<close> (\<^verbatim>\<open>_is_usb_storage_device\<close>), the fields of the second output line of
  \<^verbatim>\<open>lsblk\<close> for one device (\<^verbatim>\<open>_get_device_info\<close>; \<open>None\<close> when the command fails or
  prints fewer than two lines), \<^verbatim>\<open>findmnt\<close> (\<^verbatim>\<open>_is_device_mounted\<close>) and the list
  returned by \<^verbatim>\<open>_get_usb_storage_devices\<close>. All four helpers catch their own exceptions.
\<close>

record platform =
  is_usb_storage_device :: "string \<Rightarrow> bool"
  lsblk_row :: "string \<Rightarrow> string list option"
  is_device_mounted :: "string \<Rightarrow> bool"
  usb_storage_devices :: "device_info list"

definition set_add :: "'a \<Rightarrow> 'a list \<Rightarrow> 'a list" where
  "set_add x xs = (if x \<in> set xs then xs else xs @ [x])"

definition set_discard :: "'a \<Rightarrow> 'a list \<Rightarrow> 'a list" where
  "set_discard x xs = removeAll x xs"

definition monitor_init :: usb_monitor where
  "monitor_init = \<lparr>known_devices = [], device_info_cache = Map.empty, callbacks = []\<rparr>"

definition get_device_info :: "platform \<Rightarrow> string \<Rightarrow> device_info option" where
  "get_device_info pf device_path =
     (case lsblk_row pf device_path of
        None \<Rightarrow> None
      | Some parts \<Rightarrow>
          Some \<lparr>device = device_path,
                size = (if length parts > 0 then parts ! 0 else ''Unknown''),
                label = (if length parts > 1 \<and> parts ! 1 \<noteq> [] then parts ! 1 else ''Unlabeled''),
                mount_point = (if length parts > 2 \<and> parts ! 2 \<noteq> [] then Some (parts ! 2) else None),
                transport = ''usb''\<rparr>)"

definition device_inserted :: "platform \<Rightarrow> device_info \<Rightarrow> usb_monitor \<Rightarrow> usb_monitor" where
  "device_inserted pf info m =
     (let m1 = m\<lparr>known_devices := set_add (device info) (known_devices m),
                  device_info_cache := (device_info_cache m)(device info \<mapsto> info)\<rparr>
      in if is_device_mounted pf (device info)
         then m1\<lparr>callbacks := callbacks m1 @ [Inserted info]\<rparr>
         else m1)"

definition device_removed :: "device_info \<Rightarrow> usb_monitor \<Rightarrow> usb_monitor" where
  "device_removed info m =
     m\<lparr>known_devices := set_discard (device info) (known_devices m),
       callbacks := callbacks m @ [Removed info]\<rparr>"

text \<open>\<^verbatim>\<open>device.device_node\<close> may be \<^verbatim>\<open>None\<close>; \<^verbatim>\<open>if not device_path\<close> also rejects the
  empty string.\<close>

definition handle_device_add :: "platform \<Rightarrow> string option \<Rightarrow> usb_monitor \<Rightarrow> usb_monitor" where
  "handle_device_add pf node m =
     (case node of
        None \<Rightarrow> m
      | Some device_path \<Rightarrow>
          if device_path = [] then m
          else if is_usb_storage_device pf device_path
          then (case get_device_info pf device_path of
                  None \<Rightarrow> m
                | Some info \<Rightarrow> device_inserted pf info m)
          else m)"

text \<open>The body shared by \<^verbatim>\<open>_handle_device_remove\<close> and by the removal loop of the
  polling pass: act only on a path that is in the cache.\<close>

definition remove_if_cached :: "string \<Rightarrow> usb_monitor \<Rightarrow> usb_monitor" where
  "remove_if_cached device_path m =
     (case device_info_cache m device_path of
        None \<Rightarrow> m
      | Some info \<Rightarrow>
          (let m1 = device_removed info m
           in m1\<lparr>device_info_cache := (device_info_cache m1)(device_path := None)\<rparr>))"

definition handle_device_remove :: "string option \<Rightarrow> usb_monitor \<Rightarrow> usb_monitor" where
  "handle_device_remove node m =
     (case node of
        None \<Rightarrow> m
      | Some device_path \<Rightarrow> if device_path = [] then m else remove_if_cached device_path m)"

text \<open>\<^verbatim>\<open>_scan_existing_devices\<close>, called once by \<^verbatim>\<open>start\<close> before the monitoring
  thread runs: the devices already attached become known, without a callback.\<close>

definition scan_existing_devices :: "platform \<Rightarrow> usb_monitor \<Rightarrow> usb_monitor" where
  "scan_existing_devices pf m =
     (let devices = usb_storage_devices pf;
          m1 = m\<lparr>known_devices := remdups (map device devices)\<rparr>
      in m1\<lparr>device_info_cache :=
              foldl (\<lambda>c dev. c(device dev \<mapsto> dev)) (device_info_cache m1) devices\<rparr>)"

text \<open>One event of the \<^verbatim>\<open>pyudev\<close> loop: its action and its device node.\<close>

record udev_event =
  action :: string
  device_node :: "string option"

definition pyudev_event :: "platform \<Rightarrow> udev_event \<Rightarrow> usb_monitor \<Rightarrow> usb_monitor" where
  "pyudev_event pf ev m =
     (if action ev = ''add'' then handle_device_add pf (device_node ev) m
      else if action ev = ''remove'' then handle_device_remove (device_node ev) m
      else m)"

definition monitor_with_pyudev :: "(platform \<times> udev_event) list \<Rightarrow> usb_monitor \<Rightarrow> usb_monitor" where
  "monitor_with_pyudev evs m = foldl (\<lambda>m (pf, ev). pyudev_event pf ev m) m evs"

text \<open>One pass of the \<^verbatim>\<open>while\<close> loop of \<^verbatim>\<open>_monitor_with_polling\<close>.\<close>

definition poll_insert :: "platform \<Rightarrow> device_info list \<Rightarrow> usb_monitor \<Rightarrow> string \<Rightarrow> usb_monitor" where
  "poll_insert pf current_devices m device_path =
     (case find (\<lambda>dev. device dev = device_path) current_devices of
        None \<Rightarrow> m
      | Some info \<Rightarrow> device_inserted pf info m)"

definition poll_pass :: "platform \<Rightarrow> usb_monitor \<Rightarrow> usb_monitor" where
  "poll_pass pf m =
     (let current_devices = usb_storage_devices pf;
          current_device_paths = remdups (map device current_devices);
          new_devices = filter (\<lambda>p. p \<notin> set (known_devices m)) current_device_paths;
          m1 = foldl (poll_insert pf current_devices) m new_devices;
          removed_devices = filter (\<lambda>p. p \<notin> set current_device_paths) (known_devices m1);
          m2 = foldl (\<lambda>m p. remove_if_cached p m) m1 removed_devices;
          m3 = m2\<lparr>known_devices := current_device_paths\<rparr>
      in m3\<lparr>device_info_cache :=
              foldl (\<lambda>c dev. c(device dev \<mapsto> dev)) (device_info_cache m3) current_devices\<rparr>)"

definition monitor_with_polling :: "platform list \<Rightarrow> usb_monitor \<Rightarrow> usb_monitor" where
  "monitor_with_polling pfs m = foldl (\<lambda>m pf. poll_pass pf m) m pfs"

text \<open>The number of insert callbacks made for one device path.\<close>

definition insert_callbacks_for :: "string \<Rightarrow> usb_monitor \<Rightarrow> nat" where
  "insert_callbacks_for p m =
     length (filter (\<lambda>c. case c of Inserted info \<Rightarrow> device info = p | Removed _ \<Rightarrow> False)
               (callbacks m))"

text \<open>A platform on which \<^verbatim>\<open>/dev/sdb1\<close> is a mounted USB partition, and one on which
  the same partition is attached but never found mounted.\<close>

definition sdb1 :: device_info where
  "sdb1 = \<lparr>device = ''/dev/sdb1'', size = ''8G'', label = ''DATA'',
           mount_point = Some ''/media/usb'', transport = ''usb''\<rparr>"

definition plugged :: platform where
  "plugged = \<lparr>is_usb_storage_device = (\<lambda>p. p = ''/dev/sdb1''),
              lsblk_row = (\<lambda>p. if p = ''/dev/sdb1'' then Some [''8G'', ''DATA'', ''/media/usb''] else None),
              is_device_mounted = (\<lambda>p. p = ''/dev/sdb1''),
              usb_storage_devices = [sdb1]\<rparr>"

definition unmounted :: platform where
  "unmounted = plugged\<lparr>is_device_mounted := (\<lambda>p. False)\<rparr>"

definition add_sdb1 :: udev_event where
  "add_sdb1 = \<lparr>action = ''add'', device_node = Some ''/dev/sdb1''\<rparr>"

text \<open>The same platform after the stick has been pulled out.\<close>

definition unplugged :: platform where
  "unplugged = plugged\<lparr>usb_storage_devices := []\<rparr>"

text \<open>The device a callback was made for, and the callbacks made for one device path.\<close>

fun callback_device :: "callback \<Rightarrow> string" where
  "callback_device (Inserted info) = device info"
| "callback_device (Removed info) = device info"

definition callbacks_for :: "string \<Rightarrow> usb_monitor \<Rightarrow> callback list" where
  "callbacks_for p m = filter (\<lambda>c. callback_device c = p) (callbacks m)"

text \<open>
  Two properties that every state of the monitor has (they hold initially and both
  observation strategies keep them): every known path is a key of the cache, and the
  snapshot cached under a key is a snapshot of that device path.
\<close>

definition monitor_ok :: "usb_monitor \<Rightarrow> bool" where
  "monitor_ok m =
     (set (known_devices m) \<subseteq> dom (device_info_cache m)
      \<and> (\<forall>q info. device_info_cache m q = Some info \<longrightarrow> device info = q))"

section \<open>Timestamps (Python's naive \<^verbatim>\<open>datetime\<close>)\<close>

text \<open>
  The scheduler uses four operations of the standard library: \<^verbatim>\<open>datetime.now()\<close>, the
  difference of two timestamps and its \<^verbatim>\<open>.days\<close>, \<^verbatim>\<open>isoformat()\<close> and
  \<^verbatim>\<open>datetime.fromisoformat\<close>. A naive timestamp is a date of the proleptic Gregorian
  calendar and a time of day with microseconds; the clock is an input of every operation
  that reads it.
\<close>

record datetime =
  year :: nat
  month :: nat
  day :: nat
  hour :: nat
  minute :: nat
  second :: nat
  microsecond :: nat

definition is_leap :: "nat \<Rightarrow> bool" where
  "is_leap y = (y mod 4 = 0 \<and> (y mod 100 \<noteq> 0 \<or> y mod 400 = 0))"

definition days_in_month :: "nat \<Rightarrow> nat \<Rightarrow> nat" where
  "days_in_month y m =
     (if m = 2 then (if is_leap y then 29 else 28)
      else if m = 4 \<or> m = 6 \<or> m = 9 \<or> m = 11 then 30 else 31)"

text \<open>The timestamps that \<^verbatim>\<open>datetime\<close> can represent.\<close>

definition valid_datetime :: "datetime \<Rightarrow> bool" where
  "valid_datetime t =
     (1 \<le> year t \<and> year t \<le> 9999 \<and> 1 \<le> month t \<and> month t \<le> 12
      \<and> 1 \<le> day t \<and> day t \<le> days_in_month (year t) (month t)
      \<and> hour t < 24 \<and> minute t < 60 \<and> second t < 60 \<and> microsecond t < 1000000)"

text \<open>\<^verbatim>\<open>toordinal\<close>: the day number, with 1 for 0001-01-01.\<close>

definition days_before_year :: "nat \<Rightarrow> int" where
  "days_before_year y =
     (let y1 = int y - 1 in y1 * 365 + y1 div 4 - y1 div 100 + y1 div 400)"

definition days_before_month :: "nat \<Rightarrow> nat \<Rightarrow> int" where
  "days_before_month y m =
     int ([0, 31, 59, 90, 120, 151, 181, 212, 243, 273, 304, 334] ! (m - 1))
       + (if m > 2 \<and> is_leap y then 1 else 0)"

definition toordinal :: "datetime \<Rightarrow> int" where
  "toordinal t = days_before_year (year t) + days_before_month (year t) (month t) + int (day t)"

definition us_per_day :: int where
  "us_per_day = 86400000000"

text \<open>The position of a timestamp on the time line, in microseconds. The difference
  \<^verbatim>\<open>a - b\<close> of two timestamps is the \<^verbatim>\<open>timedelta\<close> of that many microseconds, and its
  \<^verbatim>\<open>.days\<close> is the floor of the quotient by one day (the remainder is kept non-negative
  in \<^verbatim>\<open>.seconds\<close> and \<^verbatim>\<open>.microseconds\<close>).\<close>

definition to_microseconds :: "datetime \<Rightarrow> int" where
  "to_microseconds t =
     ((toordinal t * 86400 + int (hour t) * 3600 + int (minute t) * 60 + int (second t)) * 1000000
       + int (microsecond t))"

definition timedelta_days :: "datetime \<Rightarrow> datetime \<Rightarrow> int" where
  "timedelta_days a b = (to_microseconds a - to_microseconds b) div us_per_day"

subsection \<open>\<^verbatim>\<open>isoformat\<close> and \<^verbatim>\<open>fromisoformat\<close>\<close>

definition digit_char :: "nat \<Rightarrow> char" where
  "digit_char d = char_of (48 + d)"

definition digit_val :: "char \<Rightarrow> nat option" where
  "digit_val c =
     (let n = (of_char c :: nat) in if 48 \<le> n \<and> n \<le> 57 then Some (n - 48) else None)"

definition pad2 :: "nat \<Rightarrow> string" where
  "pad2 n = [digit_char (n div 10 mod 10), digit_char (n mod 10)]"

definition pad4 :: "nat \<Rightarrow> string" where
  "pad4 n = [digit_char (n div 1000 mod 10), digit_char (n div 100 mod 10),
             digit_char (n div 10 mod 10), digit_char (n mod 10)]"

definition pad6 :: "nat \<Rightarrow> string" where
  "pad6 n = [digit_char (n div 100000 mod 10), digit_char (n div 10000 mod 10),
             digit_char (n div 1000 mod 10), digit_char (n div 100 mod 10),
             digit_char (n div 10 mod 10), digit_char (n mod 10)]"

text \<open>\<^verbatim>\<open>isoformat()\<close> of a naive timestamp: \<^verbatim>\<open>YYYY-MM-DDTHH:MM:SS\<close>, followed by
  \<^verbatim>\<open>.ffffff\<close> when the microseconds are not zero.\<close>

definition isoformat :: "datetime \<Rightarrow> string" where
  "isoformat t =
     pad4 (year t) @ ''-'' @ pad2 (month t) @ ''-'' @ pad2 (day t) @ ''T''
       @ pad2 (hour t) @ '':'' @ pad2 (minute t) @ '':'' @ pad2 (second t)
       @ (if microsecond t = 0 then [] else ''.'' @ pad6 (microsecond t))"

fun parse_digits :: "nat \<Rightarrow> string \<Rightarrow> nat option" where
  "parse_digits acc [] = Some acc"
| "parse_digits acc (c # cs) =
     (case digit_val c of None \<Rightarrow> None | Some d \<Rightarrow> parse_digits (acc * 10 + d) cs)"

text \<open>
  \<^verbatim>\<open>datetime.fromisoformat\<close> belongs to the standard library and differs between
  Python versions in the spellings it accepts (a date alone, another separator in place
  of \<^verbatim>\<open>T\<close>, hours and minutes only, shorter fractions, UTC offsets). The scheduler
  takes it as a parameter \<open>parse\<close>: \<open>None\<close> where the library raises \<^verbatim>\<open>ValueError\<close>,
  the timestamp it returns otherwise.

  The parser below reads exactly the two spellings that \<^verbatim>\<open>isoformat()\<close> writes for a
  naive timestamp, checks the ranges of the fields and rejects every other string. On
  these two spellings the library function of every version returns the same timestamp.
  It is the sample parser of the examples, and it shows that the texts \<^verbatim>\<open>isoformat()\<close>
  writes can be read back without loss.
\<close>

definition strict_fromisoformat :: "string \<Rightarrow> datetime option" where
  "strict_fromisoformat s =
     (if (length s = 19 \<or> (length s = 26 \<and> s ! 19 = CHR ''.''))
         \<and> s ! 4 = CHR ''-'' \<and> s ! 7 = CHR ''-'' \<and> s ! 10 = CHR ''T''
         \<and> s ! 13 = CHR '':'' \<and> s ! 16 = CHR '':''
      then
        (case (parse_digits 0 (take 4 s), parse_digits 0 (take 2 (drop 5 s)),
               parse_digits 0 (take 2 (drop 8 s)), parse_digits 0 (take 2 (drop 11 s)),
               parse_digits 0 (take 2 (drop 14 s)), parse_digits 0 (take 2 (drop 17 s)),
               parse_digits 0 (drop 20 s)) of
           (Some y, Some mo, Some d, Some h, Some mi, Some sec, Some us) \<Rightarrow>
             (let t = \<lparr>year = y, month = mo, day = d, hour = h, minute = mi, second = sec,
                       microsecond = us\<rparr>
              in if valid_datetime t then Some t else None)
         | _ \<Rightarrow> None)
      else None)"

section \<open>Cleanup scheduler (modules/cleanup\_scheduler.py)\<close>

text \<open>
  A ledger entry is the dict built by \<^verbatim>\<open>schedule_deletion\<close>. In memory its
  \<^verbatim>\<open>upload_time\<close> is a \<^verbatim>\<open>datetime\<close>; in the JSON file it is the text written by
  \<^verbatim>\<open>isoformat()\<close>.
\<close>

record cleanup_item =
  file_path :: string
  download_link :: string
  upload_time :: datetime
  filename :: string
  delete_after_days :: int

text \<open>
  An object of the JSON file with the keys that \<^verbatim>\<open>schedule_deletion\<close> writes. Loading
  looks at \<^verbatim>\<open>upload_time\<close> only: the key may be missing (\<^verbatim>\<open>KeyError\<close>) or hold a value
  that is not a string (\<^verbatim>\<open>TypeError\<close> in \<^verbatim>\<open>datetime.fromisoformat\<close>); both are \<open>None\<close>
  below. An element of the array that is not an object (a number, a string, an array,
  \<^verbatim>\<open>null\<close>) cannot be subscripted by \<^verbatim>\<open>'upload_time'\<close> (\<^verbatim>\<open>TypeError\<close>).
\<close>

record json_item =
  json_file_path :: string
  json_download_link :: string
  json_upload_time :: "string option"
  json_filename :: string
  json_delete_after_days :: int

datatype json_element = JsonItem json_item | JsonNotObject

text \<open>
  What \<^verbatim>\<open>json.load\<close> can return: a list for an array; a dict for an object, of which
  the loop only sees the keys; a string; or a value that cannot be iterated (\<^verbatim>\<open>null\<close>,
  a truth value, a number).
\<close>

datatype json_document =
    JsonArray "json_element list"
  | JsonObject "string list"
  | JsonString string
  | JsonScalar

text \<open>
  The file \<^verbatim>\<open>cleanup_schedule.json\<close>: absent; present but not openable or not readable
  as JSON; or a JSON document. \<^verbatim>\<open>json.dump\<close> followed by \<^verbatim>\<open>json.load\<close> returns the
  strings and integers that were written, so the file is modelled by the document it
  holds.
\<close>

datatype ledger_file = NoFile | Unreadable | Document json_document

text \<open>What happens to the file when \<^verbatim>\<open>save_cleanup_schedule\<close> runs: it is rewritten;
  or \<^verbatim>\<open>open\<close> fails and the file stays as it was; or the write fails after the file has
  been truncated. The exception is logged and swallowed in both failure cases.\<close>

datatype write_outcome = Written | OpenFailed | WriteFailed

text \<open>
  The attribute \<^verbatim>\<open>cleanup_schedule\<close> is a list everywhere in the program, with one
  exception: loading a file that holds \<^verbatim>\<open>{}\<close> or \<^verbatim>\<open>""\<close> leaves that empty dict or
  empty string in the attribute. \<open>cleanup_schedule\<close> below is the sequence of entries the
  attribute iterates to, and \<open>cleanup_schedule_type\<close> the type of the object that holds
  them; a dict or a string never holds an entry.
\<close>

datatype py_type = PyList | PyDict | PyStr

record cleanup_scheduler =
  cleanup_schedule :: "cleanup_item list"
  cleanup_schedule_type :: py_type
  cleanup_db :: ledger_file
  auto_delete_days :: int

definition basename :: "string \<Rightarrow> string" where
  "basename p = rev (takeWhile (\<lambda>c. c \<noteq> CHR ''/'') (rev p))"

text \<open>One round of the loop of \<^verbatim>\<open>load_cleanup_schedule\<close>:
  \<^verbatim>\<open>item['upload_time'] = datetime.fromisoformat(item['upload_time'])\<close>; \<open>None\<close> when
  it raises. \<open>parse\<close> is \<^verbatim>\<open>datetime.fromisoformat\<close>.\<close>

definition convert_item :: "(string \<Rightarrow> datetime option) \<Rightarrow> json_element \<Rightarrow> cleanup_item option" where
  "convert_item parse e =
     (case e of
        JsonNotObject \<Rightarrow> None
      | JsonItem j \<Rightarrow>
          (case json_upload_time j of
             None \<Rightarrow> None
           | Some s \<Rightarrow>
               (case parse s of
                  None \<Rightarrow> None
                | Some t \<Rightarrow>
                    Some \<lparr>file_path = json_file_path j, download_link = json_download_link j,
                          upload_time = t, filename = json_filename j,
                          delete_after_days = json_delete_after_days j\<rparr>)))"

text \<open>The loop converts the elements in order; the first element that cannot be
  converted raises, which ends the loop (\<open>None\<close>).\<close>

fun convert_items :: "(string \<Rightarrow> datetime option) \<Rightarrow> json_element list \<Rightarrow>
    cleanup_item list option" where
  "convert_items parse [] = Some []"
| "convert_items parse (e # es) =
     (case convert_item parse e of
        None \<Rightarrow> None
      | Some item \<Rightarrow>
          (case convert_items parse es of None \<Rightarrow> None | Some items \<Rightarrow> Some (item # items)))"

text \<open>
  \<^verbatim>\<open>load_cleanup_schedule\<close>. Without a file the ledger is the empty list. Otherwise
  \<^verbatim>\<open>json.load\<close> and the whole loop are inside one \<^verbatim>\<open>try\<close>, whose \<^verbatim>\<open>except\<close> branch
  logs the error and sets the ledger to the empty list. The loop over an object sees its
  keys and the loop over a string its characters, which are strings and cannot be
  subscripted by \<^verbatim>\<open>'upload_time'\<close>; an empty object and an empty string give the loop
  nothing to do and stay in the attribute. The result is the pair of the entries and the
  type of the object that holds them.
\<close>

definition load_document :: "(string \<Rightarrow> datetime option) \<Rightarrow> ledger_file \<Rightarrow>
    cleanup_item list \<times> py_type" where
  "load_document parse file =
     (case file of
        NoFile \<Rightarrow> ([], PyList)
      | Unreadable \<Rightarrow> ([], PyList)
      | Document doc \<Rightarrow>
          (case doc of
             JsonArray es \<Rightarrow>
               (case convert_items parse es of None \<Rightarrow> ([], PyList) | Some items \<Rightarrow> (items, PyList))
           | JsonObject keys \<Rightarrow> (if keys = [] then ([], PyDict) else ([], PyList))
           | JsonString chars \<Rightarrow> (if chars = [] then ([], PyStr) else ([], PyList))
           | JsonScalar \<Rightarrow> ([], PyList)))"

definition load_cleanup_schedule :: "(string \<Rightarrow> datetime option) \<Rightarrow> cleanup_scheduler \<Rightarrow>
    cleanup_scheduler" where
  "load_cleanup_schedule parse sch =
     (let (items, ty) = load_document parse (cleanup_db sch)
      in sch\<lparr>cleanup_schedule := items, cleanup_schedule_type := ty\<rparr>)"

text \<open>\<^verbatim>\<open>save_cleanup_schedule\<close> copies every entry into a new list, with the timestamp
  replaced by its \<^verbatim>\<open>isoformat()\<close>, and dumps that list: the file it writes is always an
  array.\<close>

definition to_json :: "cleanup_item \<Rightarrow> json_item" where
  "to_json item =
     \<lparr>json_file_path = file_path item, json_download_link = download_link item,
      json_upload_time = Some (isoformat (upload_time item)), json_filename = filename item,
      json_delete_after_days = delete_after_days item\<rparr>"

definition save_cleanup_schedule :: "write_outcome \<Rightarrow> cleanup_scheduler \<Rightarrow> cleanup_scheduler" where
  "save_cleanup_schedule wo sch =
     (case wo of
        Written \<Rightarrow>
          sch\<lparr>cleanup_db := Document (JsonArray (map (\<lambda>item. JsonItem (to_json item))
                                                  (cleanup_schedule sch)))\<rparr>
      | OpenFailed \<Rightarrow> sch
      | WriteFailed \<Rightarrow> sch\<lparr>cleanup_db := Unreadable\<rparr>)"

text \<open>
  \<^verbatim>\<open>schedule_deletion\<close> appends the new entry and saves. \<^verbatim>\<open>append\<close> exists on a list
  only: on the empty dict or string that a load may have left, the call raises
  \<^verbatim>\<open>AttributeError\<close> before anything is changed, and the exception goes to the caller.
  \<open>schedule_deletion_error\<close> is the text of that exception, \<open>schedule_deletion\<close> the state
  the call leaves.
\<close>

definition schedule_deletion_error :: "cleanup_scheduler \<Rightarrow> string option" where
  "schedule_deletion_error sch =
     (case cleanup_schedule_type sch of
        PyList \<Rightarrow> None
      | PyDict \<Rightarrow> Some ([CHR 0x27] @ ''dict'' @ [CHR 0x27] @ '' object has no attribute ''
                        @ [CHR 0x27] @ ''append'' @ [CHR 0x27])
      | PyStr \<Rightarrow> Some ([CHR 0x27] @ ''str'' @ [CHR 0x27] @ '' object has no attribute ''
                       @ [CHR 0x27] @ ''append'' @ [CHR 0x27]))"

definition schedule_deletion :: "string \<Rightarrow> string \<Rightarrow> datetime \<Rightarrow> write_outcome \<Rightarrow>
    cleanup_scheduler \<Rightarrow> cleanup_scheduler" where
  "schedule_deletion path link now wo sch =
     (let item = \<lparr>file_path = path, download_link = link, upload_time = now,
                   filename = basename path, delete_after_days = auto_delete_days sch\<rparr>
      in if schedule_deletion_error sch = None
         then save_cleanup_schedule wo (sch\<lparr>cleanup_schedule := cleanup_schedule sch @ [item]\<rparr>)
         else sch)"

text \<open>
  What one call of \<^verbatim>\<open>delete_file\<close> meets: whether the local file exists, whether
  \<^verbatim>\<open>os.remove\<close> then succeeds (it is only called on an existing file), and what the cloud
  deletion does: \<open>Inr b\<close> when \<^verbatim>\<open>CloudUploader.delete_file\<close> returns \<open>b\<close>, \<open>Inl\<close> when
  building the uploader or the call raises.
\<close>

record delete_outcome =
  local_exists :: bool
  local_removed :: bool
  cloud_deleted :: "string + bool"

definition delete_file :: "delete_outcome \<Rightarrow> cleanup_item \<Rightarrow> bool" where
  "delete_file out item =
     (let success = True;
          success = (if local_exists out then (if local_removed out then success else False)
                     else success);
          success = (case cloud_deleted out of
                       Inl e \<Rightarrow> False
                     | Inr deleted \<Rightarrow> if deleted then success else False)
      in success)"

text \<open>The two reports the ledger is meant to wait for: the local deletion raised no
  error, and the remote deletion returned true.\<close>

definition local_deletion_ok :: "delete_outcome \<Rightarrow> bool" where
  "local_deletion_ok out = (local_exists out \<longrightarrow> local_removed out)"

definition remote_deletion_ok :: "delete_outcome \<Rightarrow> bool" where
  "remote_deletion_ok out = (cloud_deleted out = Inr True)"

definition days_since_upload :: "datetime \<Rightarrow> cleanup_item \<Rightarrow> int" where
  "days_since_upload current_time item = timedelta_days current_time (upload_time item)"

text \<open>
  The first loop of \<^verbatim>\<open>check_and_cleanup\<close>. The entry at position \<open>i\<close> of the ledger
  meets the outcome \<open>outs i\<close> if \<^verbatim>\<open>delete_file\<close> is called on it. The result lists the
  calls of \<^verbatim>\<open>delete_file\<close> in order, each with the value it returned.
\<close>

fun delete_calls :: "datetime \<Rightarrow> (nat \<Rightarrow> delete_outcome) \<Rightarrow> nat \<Rightarrow> cleanup_item list \<Rightarrow>
    (cleanup_item \<times> bool) list" where
  "delete_calls current_time outs i [] = []"
| "delete_calls current_time outs i (item # rest) =
     (if days_since_upload current_time item \<ge> delete_after_days item
      then (item, delete_file (outs i) item) # delete_calls current_time outs (Suc i) rest
      else delete_calls current_time outs (Suc i) rest)"

text \<open>The second loop: \<^verbatim>\<open>list.remove\<close> takes out the first entry equal to its
  argument.\<close>

fun remove_items :: "cleanup_item list \<Rightarrow> cleanup_item list \<Rightarrow> cleanup_item list" where
  "remove_items schedule [] = schedule"
| "remove_items schedule (item # items) = remove_items (remove1 item schedule) items"

text \<open>\<^verbatim>\<open>items_to_remove\<close>: the entries for which \<^verbatim>\<open>delete_file\<close> returned true.\<close>

definition items_to_remove :: "datetime \<Rightarrow> (nat \<Rightarrow> delete_outcome) \<Rightarrow> nat \<Rightarrow>
    cleanup_item list \<Rightarrow> cleanup_item list" where
  "items_to_remove current_time outs i schedule =
     map fst (filter snd (delete_calls current_time outs i schedule))"

definition check_and_cleanup :: "datetime \<Rightarrow> (nat \<Rightarrow> delete_outcome) \<Rightarrow> write_outcome \<Rightarrow>
    cleanup_scheduler \<Rightarrow> cleanup_scheduler" where
  "check_and_cleanup current_time outs wo sch =
     (let removed = items_to_remove current_time outs 0 (cleanup_schedule sch);
          sch1 = sch\<lparr>cleanup_schedule := remove_items (cleanup_schedule sch) removed\<rparr>
      in if removed \<noteq> [] then save_cleanup_schedule wo sch1 else sch1)"

text \<open>The entries a sweep calls \<^verbatim>\<open>delete_file\<close> on.\<close>

definition attempted :: "datetime \<Rightarrow> (nat \<Rightarrow> delete_outcome) \<Rightarrow> cleanup_scheduler \<Rightarrow>
    cleanup_item list" where
  "attempted current_time outs sch =
     map fst (delete_calls current_time outs 0 (cleanup_schedule sch))"

text \<open>The entries that the claim about a sweep keeps: every entry except those that are
  due and whose local and remote deletion both reported success.\<close>

fun kept_entries :: "datetime \<Rightarrow> (nat \<Rightarrow> delete_outcome) \<Rightarrow> nat \<Rightarrow> cleanup_item list \<Rightarrow>
    cleanup_item list" where
  "kept_entries current_time outs i [] = []"
| "kept_entries current_time outs i (item # rest) =
     (if days_since_upload current_time item \<ge> delete_after_days item
         \<and> local_deletion_ok (outs i) \<and> remote_deletion_ok (outs i)
      then kept_entries current_time outs (Suc i) rest
      else item # kept_entries current_time outs (Suc i) rest)"

text \<open>Sample data: two ledger entries, a timestamp a week later, and outcomes of
  \<^verbatim>\<open>delete_file\<close>.\<close>

definition jan1 :: datetime where
  "jan1 = \<lparr>year = 2024, month = 1, day = 1, hour = 12, minute = 30, second = 0, microsecond = 250\<rparr>"

definition jan8 :: datetime where
  "jan8 = \<lparr>year = 2024, month = 1, day = 8, hour = 12, minute = 30, second = 0, microsecond = 250\<rparr>"

definition item_a :: cleanup_item where
  "item_a = \<lparr>file_path = ''/tmp/a.zip'', download_link = ''https://cloud/s/a'',
             upload_time = jan1, filename = ''a.zip'', delete_after_days = 7\<rparr>"

definition item_b :: cleanup_item where
  "item_b = \<lparr>file_path = ''/tmp/b.zip'', download_link = ''https://cloud/s/b'',
             upload_time = jan1, filename = ''b.zip'', delete_after_days = 7\<rparr>"

definition all_deleted :: delete_outcome where
  "all_deleted = \<lparr>local_exists = True, local_removed = True, cloud_deleted = Inr True\<rparr>"

definition remote_failed :: delete_outcome where
  "remote_failed = \<lparr>local_exists = True, local_removed = True, cloud_deleted = Inr False\<rparr>"

definition local_missing :: delete_outcome where
  "local_missing = \<lparr>local_exists = False, local_removed = False, cloud_deleted = Inr True\<rparr>"

definition scheduler_with :: "cleanup_item list \<Rightarrow> cleanup_scheduler" where
  "scheduler_with items =
     \<lparr>cleanup_schedule = items, cleanup_schedule_type = PyList, cleanup_db = NoFile,
      auto_delete_days = 7\<rparr>"

text \<open>A ledger file with one well-formed entry followed by one whose timestamp is not a
  timestamp.\<close>

definition good_json :: json_item where
  "good_json = \<lparr>json_file_path = ''/tmp/a.zip'', json_download_link = ''https://cloud/s/a'',
                json_upload_time = Some ''2024-01-01T12:30:00'', json_filename = ''a.zip'',
                json_delete_after_days = 7\<rparr>"

definition corrupt_json :: json_item where
  "corrupt_json = \<lparr>json_file_path = ''/tmp/b.zip'', json_download_link = ''https://cloud/s/b'',
                   json_upload_time = Some ''yesterday'', json_filename = ''b.zip'',
                   json_delete_after_days = 7\<rparr>"

text \<open>The elements of the file that one round of the loop converts without raising.\<close>

definition parsable :: "(string \<Rightarrow> datetime option) \<Rightarrow> json_element \<Rightarrow> bool" where
  "parsable parse e = (convert_item parse e \<noteq> None)"

text \<open>A timestamp one microsecond before \<open>jan8\<close>, and a ledger overwritten with an entry
  that was never saved.\<close>

definition jan8_early :: datetime where
  "jan8_early = \<lparr>year = 2024, month = 1, day = 8, hour = 12, minute = 30, second = 0,
                  microsecond = 249\<rparr>"

definition item_stale :: cleanup_item where
  "item_stale = \<lparr>file_path = ''/tmp/old.zip'', download_link = ''https://cloud/s/old'',
                 upload_time = jan8, filename = ''old.zip'', delete_after_days = 1\<rparr>"

section \<open>Processing pipeline (daemon.py, \<^verbatim>\<open>_process_usb_drive\<close>)\<close>

text \<open>
  The pipeline calls its collaborators one after the other and branches on what they
  return. The scanner module is not part of the sources at hand; it is a parameter, and
  it is the only collaborator that may raise into the pipeline (\<open>Inl\<close> with the text of
  the exception), apart from \<^verbatim>\<open>schedule_deletion\<close> when the ledger is not a list
  (\<open>schedule_deletion_error\<close>): \<^verbatim>\<open>create_zip\<close>, \<^verbatim>\<open>upload_file\<close>, \<^verbatim>\<open>create_public_share\<close>,
  \<^verbatim>\<open>_get_email_address\<close>, \<^verbatim>\<open>_show_malware_warning\<close> and \<^verbatim>\<open>send_notification\<close> catch
  their own exceptions and report failure in the value they return.
\<close>

record infected_file =
  infected_path :: string
  threat :: string

record scan_result =
  infected_files :: "infected_file list"
  safe_files :: "string list"

text \<open>\<^verbatim>\<open>upload_file\<close> returns a dict with \<^verbatim>\<open>success\<close> true and the remote path, or with
  \<^verbatim>\<open>success\<close> false and an error text.\<close>

datatype upload_result = UploadOk string | UploadFailed string

record collaborators =
  path_exists :: "string \<Rightarrow> bool"
  scan_directory :: "string \<Rightarrow> string + scan_result"
  create_zip :: "string list \<Rightarrow> string option"
  upload_file :: "string \<Rightarrow> upload_result"
  create_public_share :: "string \<Rightarrow> string option"
  get_email_address :: "string option"
  send_notification :: "string \<Rightarrow> string \<Rightarrow> string \<Rightarrow> bool"

text \<open>The calls the pipeline makes, in order: status updates (message and phase) and the
  calls of the collaborators with their arguments.\<close>

datatype action =
    StatusCall string string
  | ScanCall string
  | WarningCall "infected_file list"
  | ZipCall "string list"
  | UploadCall string
  | ShareCall string
  | EmailAddressCall
  | NotifyCall string string string
  | ScheduleCall string string

text \<open>Python's truth test on an optional string: \<^verbatim>\<open>None\<close> and the empty string are
  false.\<close>

fun nonempty :: "string option \<Rightarrow> string option" where
  "nonempty None = None"
| "nonempty (Some s) = (if s = [] then None else Some s)"

text \<open>\<^verbatim>\<open>str(n)\<close> for a length.\<close>

fun str_nat :: "nat \<Rightarrow> string" where
  "str_nat n = (if n < 10 then [digit_char n] else str_nat (n div 10) @ [digit_char (n mod 10)])"

definition process_usb_drive :: "collaborators \<Rightarrow> datetime \<Rightarrow> write_outcome \<Rightarrow> device_info \<Rightarrow>
    cleanup_scheduler \<Rightarrow> action list \<times> cleanup_scheduler" where
  "process_usb_drive co now wo device_info sch =
     (case nonempty (mount_point device_info) of
        None \<Rightarrow> ([], sch)
      | Some mp \<Rightarrow>
          if \<not> path_exists co mp then ([], sch)
          else
            (let t1 = [StatusCall (''Scanning files in '' @ mp) ''scanning'', ScanCall mp]
             in case scan_directory co mp of
                  Inl e \<Rightarrow> (t1 @ [StatusCall (''Processing error: '' @ e) ''error''], sch)
                | Inr scan \<Rightarrow>
                    if infected_files scan \<noteq> []
                    then (t1 @ [StatusCall (''Malware detected! ''
                                   @ str_nat (length (infected_files scan)) @ '' infected files'')
                                  ''error'',
                                WarningCall (infected_files scan)], sch)
                    else if safe_files scan = []
                    then (t1 @ [StatusCall ''No files found on USB drive'' ''idle''], sch)
                    else
                      (let t2 = t1 @ [StatusCall (''Creating archive from ''
                                        @ str_nat (length (safe_files scan)) @ '' files'')
                                       ''processing'',
                                      ZipCall (safe_files scan)]
                       in case nonempty (create_zip co (safe_files scan)) of
                            None \<Rightarrow> (t2 @ [StatusCall ''Failed to create archive'' ''error''], sch)
                          | Some zip_path \<Rightarrow>
                              (let t3 = t2 @ [StatusCall ''Uploading to Nextcloud'' ''uploading'',
                                              UploadCall zip_path]
                               in case upload_file co zip_path of
                                    UploadFailed err \<Rightarrow>
                                      (t3 @ [StatusCall (''Upload failed: '' @ err) ''error''], sch)
                                  | UploadOk remote_path \<Rightarrow>
                                      (let t4 = t3 @ [StatusCall ''Generating public share link''
                                                        ''processing'',
                                                      ShareCall remote_path]
                                       in case nonempty (create_public_share co remote_path) of
                                            None \<Rightarrow>
                                              (t4 @ [StatusCall ''Failed to create share link''
                                                       ''error''], sch)
                                          | Some share_link \<Rightarrow>
                                              (let t5 = t4 @ [EmailAddressCall]
                                               in case nonempty (get_email_address co) of
                                                    None \<Rightarrow>
                                                      (t5 @ [StatusCall ''No email address provided''
                                                               ''warning''], sch)
                                                  | Some email_address \<Rightarrow>
                                                      (let t6 = t5 @ [StatusCall
                                                                 ''Sending email notification''
                                                                 ''processing'',
                                                               NotifyCall email_address share_link
                                                                 zip_path]
                                                       in if send_notification co email_address
                                                               share_link zip_path
                                                          then (t6 @ [StatusCall
                                                                  (''Email sent to '' @ email_address)
                                                                  ''success'',
                                                                ScheduleCall remote_path share_link]
                                                                @ (case schedule_deletion_error sch of
                                                                     None \<Rightarrow> []
                                                                   | Some e \<Rightarrow>
                                                                       [StatusCall
                                                                          (''Processing error: '' @ e)
                                                                          ''error'']),
                                                                schedule_deletion remote_path
                                                                  share_link now wo sch)
                                                          else (t6 @ [StatusCall
                                                                  ''Failed to send email''
                                                                  ''error''], sch))))))))"

text \<open>The calls that produce an archive, an upload, a share link or a ledger entry.\<close>

fun produces_artifact :: "action \<Rightarrow> bool" where
  "produces_artifact (ZipCall _) = True"
| "produces_artifact (UploadCall _) = True"
| "produces_artifact (ShareCall _) = True"
| "produces_artifact (ScheduleCall _ _) = True"
| "produces_artifact _ = False"

text \<open>Sample collaborators: a stick with three files, all of them clean or one of them
  infected, and services that all succeed.\<close>

definition clean_scan :: scan_result where
  "clean_scan = \<lparr>infected_files = [], safe_files = [''/media/usb/a'', ''/media/usb/b'']\<rparr>"

definition infected_scan :: scan_result where
  "infected_scan = \<lparr>infected_files = [\<lparr>infected_path = ''/media/usb/c'', threat = ''Eicar''\<rparr>],
                    safe_files = [''/media/usb/a'', ''/media/usb/b'']\<rparr>"

definition services_up :: "scan_result \<Rightarrow> collaborators" where
  "services_up scan =
     \<lparr>path_exists = (\<lambda>p. True),
      scan_directory = (\<lambda>p. Inr scan),
      create_zip = (\<lambda>files. Some ''/tmp/usb.zip''),
      upload_file = (\<lambda>p. UploadOk ''USB/usb.zip''),
      create_public_share = (\<lambda>p. Some ''https://cloud/s/x''),
      get_email_address = Some ''a@b.c'',
      send_notification = (\<lambda>addr link zip. True)\<rparr>"

section \<open>Properties of the status record\<close>

lemma errs_save_status: "errs (save_status w sm) = errs sm"
  by (simp add: errs_def save_status_def)

lemma errs_add_error:
  "errs (add_error msg t w sm) = py_last_n 10 (errs sm @ [\<lparr>err_timestamp = t, err_message = msg\<rparr>])"
  by (simp add: add_error_def Let_def errs_save_status[unfolded errs_def] errs_def
      save_status_def py_last_n_def)

lemma errs_other_op: "\<not> is_add_error op \<Longrightarrow> errs (apply_status_op sm op) = errs sm"
  by (cases op)
     (simp_all add: errs_def set_status_def increment_processing_count_def cleanup_status_def
        save_status_def)

lemma py_last_n_snoc: "py_last_n n (py_last_n n xs @ ys) = py_last_n n (xs @ ys)"
proof (cases "length xs \<le> n")
  case True
  then show ?thesis by (simp add: py_last_n_def)
next
  case False
  then have "length xs - n + (length xs + length ys - (length xs - n + n))
      = length xs + length ys - n"
    by simp
  then show ?thesis
    using False by (simp add: py_last_n_def add.commute)
qed

lemma length_py_last_n: "length (py_last_n n xs) \<le> n"
  by (simp add: py_last_n_def)

lemma errs_run_ops:
  "errs (run_status_ops sm ops) = py_last_n 10 (py_last_n 10 (errs sm) @ errors_added ops)
     \<or> (errors_added ops = [] \<and> errs (run_status_ops sm ops) = errs sm)"
  unfolding run_status_ops_def
proof (induction ops arbitrary: sm)
  case Nil
  then show ?case by simp
next
  case (Cons op ops)
  show ?case
  proof (cases "is_add_error op")
    case False
    then have a: "errors_added (op # ops) = errors_added ops"
      by (cases op) simp_all
    from Cons.IH[of "apply_status_op sm op"] False show ?thesis
      by (simp add: a errs_other_op)
  next
    case True
    then obtain msg t w where op: "op = AddError msg t w"
      by (cases op) simp_all
    let ?e = "\<lparr>err_timestamp = t, err_message = msg\<rparr>"
    have step: "errs (apply_status_op sm op) = py_last_n 10 (errs sm @ [?e])"
      by (simp add: op errs_add_error)
    have idem: "py_last_n 10 (py_last_n 10 (errs sm @ [?e])) = py_last_n 10 (errs sm @ [?e])"
      using py_last_n_snoc[of 10 "errs sm @ [?e]" "[]"] by simp
    from Cons.IH[of "apply_status_op sm op"]
    have "errs (foldl apply_status_op (apply_status_op sm op) ops)
          = py_last_n 10 (errs sm @ ?e # errors_added ops)"
    proof
      assume "errs (foldl apply_status_op (apply_status_op sm op) ops) =
        py_last_n 10 (py_last_n 10 (errs (apply_status_op sm op)) @ errors_added ops)"
      then show ?thesis
        using py_last_n_snoc[of 10 "errs sm @ [?e]" "errors_added ops"]
        by (simp add: step idem)
    next
      assume "errors_added ops = [] \<and>
        errs (foldl apply_status_op (apply_status_op sm op) ops) = errs (apply_status_op sm op)"
      then show ?thesis by (simp add: step)
    qed
    then show ?thesis
      using py_last_n_snoc[of 10 "errs sm" "?e # errors_added ops"]
      by (simp add: op)
  qed
qed

text \<open>
  Claim C8. Starting from the freshly constructed status record, after any sequence of
  status operations the error list holds at most 10 records and equals the last 10 error
  records that \<^verbatim>\<open>add_error\<close> was given, oldest first; every operation other than
  \<^verbatim>\<open>add_error\<close> leaves the error list as it was, from any state.
\<close>

theorem status_errors_bounded:
  "length (errs (run_status_ops (status_manager_init w0) ops)) \<le> 10
   \<and> errs (run_status_ops (status_manager_init w0) ops) = py_last_n 10 (errors_added ops)
   \<and> (\<forall>sm op. \<not> is_add_error op \<longrightarrow> errs (apply_status_op sm op) = errs sm)"
proof -
  have init: "errs (status_manager_init w0) = []"
    by (simp add: status_manager_init_def errs_save_status)
       (simp add: errs_def initial_status_def)
  have eq: "errs (run_status_ops (status_manager_init w0) ops) = py_last_n 10 (errors_added ops)"
    using errs_run_ops[of "status_manager_init w0" ops]
    by (auto simp: init py_last_n_def)
  show ?thesis
    using length_py_last_n[of 10 "errors_added ops"] errs_other_op
    by (simp add: eq)
qed

theorem status_errors_bounded_witness:
  "errs (run_status_ops (status_manager_init True)
      [AddError ''e0'' ''t'' True, AddError ''e1'' ''t'' True, AddError ''e2'' ''t'' True,
       AddError ''e3'' ''t'' True, GetStatus, AddError ''e4'' ''t'' True,
       AddError ''e5'' ''t'' True, AddError ''e6'' ''t'' True, SetStatus ''m'' ''idle'' ''t'' ''u'' True,
       AddError ''e7'' ''t'' True, AddError ''e8'' ''t'' True, AddError ''e9'' ''t'' True,
       AddError ''eA'' ''t'' True])
   = map (\<lambda>m. \<lparr>err_timestamp = ''t'', err_message = m\<rparr>)
       [''e1'', ''e2'', ''e3'', ''e4'', ''e5'', ''e6'', ''e7'', ''e8'', ''e9'', ''eA'']
   \<and> \<not> is_add_error GetStatus
   \<and> errs (apply_status_op (status_manager_init True) GetStatus) = errs (status_manager_init True)"
  using status_errors_bounded[of True
      "[AddError ''e0'' ''t'' True, AddError ''e1'' ''t'' True, AddError ''e2'' ''t'' True,
       AddError ''e3'' ''t'' True, GetStatus, AddError ''e4'' ''t'' True,
       AddError ''e5'' ''t'' True, AddError ''e6'' ''t'' True, SetStatus ''m'' ''idle'' ''t'' ''u'' True,
       AddError ''e7'' ''t'' True, AddError ''e8'' ''t'' True, AddError ''e9'' ''t'' True,
       AddError ''eA'' ''t'' True]"]
  by (simp add: py_last_n_def)


section \<open>Properties of the device monitor\<close>

lemma set_add_member: "x \<in> set (set_add x xs)"
  by (simp add: set_add_def)

lemma set_discard_not_member: "x \<notin> set (set_discard x xs)"
  by (simp add: set_discard_def)

text \<open>
  Claim C3. When the device of a candidate insert is not found mounted after the grace
  period, \<^verbatim>\<open>_device_inserted\<close> makes no callback and leaves the path in the known set and
  in the cache; a later removal of that path, from a udev event or from the removal loop
  of the polling pass, takes it out of both and reports it.
\<close>

theorem unverified_insert_tracked:
  assumes "\<not> is_device_mounted pf (device info)"
  shows "callbacks (device_inserted pf info m) = callbacks m
    \<and> device info \<in> set (known_devices (device_inserted pf info m))
    \<and> device_info_cache (device_inserted pf info m) (device info) = Some info
    \<and> device info \<notin> set (known_devices (remove_if_cached (device info) (device_inserted pf info m)))
    \<and> device_info_cache (remove_if_cached (device info) (device_inserted pf info m)) (device info) = None
    \<and> callbacks (remove_if_cached (device info) (device_inserted pf info m)) = callbacks m @ [Removed info]
    \<and> (device info \<noteq> [] \<longrightarrow>
         handle_device_remove (Some (device info)) (device_inserted pf info m)
         = remove_if_cached (device info) (device_inserted pf info m))"
  using assms
  by (simp add: device_inserted_def Let_def remove_if_cached_def device_removed_def
      set_add_member set_discard_not_member handle_device_remove_def)

theorem unverified_insert_tracked_witness:
  "\<not> is_device_mounted unmounted (device sdb1)
   \<and> callbacks (device_inserted unmounted sdb1 monitor_init) = []
   \<and> known_devices (device_inserted unmounted sdb1 monitor_init) = [''/dev/sdb1'']
   \<and> known_devices (handle_device_remove (Some ''/dev/sdb1'') (device_inserted unmounted sdb1 monitor_init)) = []
   \<and> callbacks (handle_device_remove (Some ''/dev/sdb1'') (device_inserted unmounted sdb1 monitor_init))
       = [Removed sdb1]"
proof -
  have h: "\<not> is_device_mounted unmounted (device sdb1)"
    by (simp add: unmounted_def)
  have d: "device sdb1 = ''/dev/sdb1''"
    by (simp add: sdb1_def)
  from unverified_insert_tracked[OF h, of monitor_init] show ?thesis
    using h
    by (simp add: d monitor_init_def device_inserted_def Let_def set_add_def
        remove_if_cached_def device_removed_def set_discard_def)
qed

lemma device_inserted_other:
  "device info \<noteq> p \<Longrightarrow>
   device_info_cache (device_inserted pf info m) p = device_info_cache m p
   \<and> callbacks_for p (device_inserted pf info m) = callbacks_for p m"
  by (simp add: device_inserted_def Let_def callbacks_for_def)

lemma device_inserted_ok: "monitor_ok m \<Longrightarrow> monitor_ok (device_inserted pf info m)"
  by (auto simp: monitor_ok_def device_inserted_def Let_def set_add_def)

lemma poll_insert_other:
  assumes "q \<noteq> p"
  shows "device_info_cache (poll_insert pf cur m q) p = device_info_cache m p
    \<and> callbacks_for p (poll_insert pf cur m q) = callbacks_for p m"
proof (cases "find (\<lambda>dev. device dev = q) cur")
  case None
  then show ?thesis by (simp add: poll_insert_def)
next
  case (Some info)
  then have "device info = q"
    by (auto simp: find_Some_iff)
  with Some assms show ?thesis
    using device_inserted_other[of info p pf m] by (simp add: poll_insert_def)
qed

lemma poll_insert_ok: "monitor_ok m \<Longrightarrow> monitor_ok (poll_insert pf cur m q)"
  by (simp add: poll_insert_def device_inserted_ok split: option.splits)

lemma poll_inserts_other:
  "p \<notin> set qs \<Longrightarrow>
   device_info_cache (foldl (poll_insert pf cur) m qs) p = device_info_cache m p
   \<and> callbacks_for p (foldl (poll_insert pf cur) m qs) = callbacks_for p m"
proof (induction qs arbitrary: m)
  case Nil
  then show ?case by simp
next
  case (Cons q qs)
  then have "q \<noteq> p" and "p \<notin> set qs"
    by auto
  then show ?case
    using Cons.IH[of "poll_insert pf cur m q"] poll_insert_other[of q p pf cur m] by simp
qed

lemma poll_inserts_ok: "monitor_ok m \<Longrightarrow> monitor_ok (foldl (poll_insert pf cur) m qs)"
  by (induction qs arbitrary: m) (simp_all add: poll_insert_ok)

lemma remove_if_cached_other:
  assumes "monitor_ok m" and "device_info_cache m p = None"
  shows "device_info_cache (remove_if_cached q m) p = None
    \<and> callbacks_for p (remove_if_cached q m) = callbacks_for p m"
proof (cases "device_info_cache m q")
  case None
  with assms show ?thesis by (simp add: remove_if_cached_def)
next
  case (Some info)
  with assms have "device info = q" and "q \<noteq> p"
    by (auto simp: monitor_ok_def)
  with Some assms(2) show ?thesis
    by (simp add: remove_if_cached_def device_removed_def Let_def callbacks_for_def)
qed

lemma remove_if_cached_ok:
  assumes "monitor_ok m"
  shows "monitor_ok (remove_if_cached q m)"
proof (cases "device_info_cache m q")
  case None
  with assms show ?thesis by (simp add: remove_if_cached_def)
next
  case (Some info)
  with assms have "device info = q"
    by (auto simp: monitor_ok_def)
  with Some assms show ?thesis
    by (auto simp: remove_if_cached_def device_removed_def Let_def monitor_ok_def
        set_discard_def split: if_splits)
qed

lemma poll_removes_other:
  "monitor_ok m \<Longrightarrow> device_info_cache m p = None \<Longrightarrow>
   device_info_cache (foldl (\<lambda>m q. remove_if_cached q m) m qs) p = None
   \<and> callbacks_for p (foldl (\<lambda>m q. remove_if_cached q m) m qs) = callbacks_for p m"
proof (induction qs arbitrary: m)
  case Nil
  then show ?case by simp
next
  case (Cons q qs)
  from Cons.prems have a: "device_info_cache (remove_if_cached q m) p = None"
    and b: "callbacks_for p (remove_if_cached q m) = callbacks_for p m"
    using remove_if_cached_other[of m p q] by simp_all
  from Cons.prems have "monitor_ok (remove_if_cached q m)"
    by (simp add: remove_if_cached_ok)
  with a b show ?case
    using Cons.IH[of "remove_if_cached q m"] by simp
qed

lemma poll_removes_ok:
  "monitor_ok m \<Longrightarrow> monitor_ok (foldl (\<lambda>m q. remove_if_cached q m) m qs)"
  by (induction qs arbitrary: m) (simp_all add: remove_if_cached_ok)

lemma cache_refresh_other:
  "p \<notin> device ` set cur \<Longrightarrow> foldl (\<lambda>c dev. c(device dev \<mapsto> dev)) c cur p = c p"
  by (induction cur arbitrary: c) simp_all

lemma cache_refresh_dom:
  "dom (foldl (\<lambda>c dev. c(device dev \<mapsto> dev)) c cur) = dom c \<union> device ` set cur"
  by (induction cur arbitrary: c) auto

lemma cache_refresh_consistent:
  "\<forall>q info. c q = Some info \<longrightarrow> device info = q \<Longrightarrow>
   \<forall>q info. foldl (\<lambda>c dev. c(device dev \<mapsto> dev)) c cur q = Some info \<longrightarrow> device info = q"
proof (induction cur arbitrary: c)
  case Nil
  then show ?case by simp
next
  case (Cons dev cur)
  have "\<forall>q info. (c(device dev \<mapsto> dev)) q = Some info \<longrightarrow> device info = q"
  proof (intro allI impI)
    fix q info
    assume a: "(c(device dev \<mapsto> dev)) q = Some info"
    show "device info = q"
    proof (cases "q = device dev")
      case True
      with a show ?thesis by simp
    next
      case False
      with a have "c q = Some info" by simp
      with Cons.prems show ?thesis by blast
    qed
  qed
  then have "\<forall>q info. foldl (\<lambda>c dev. c(device dev \<mapsto> dev)) (c(device dev \<mapsto> dev)) cur q = Some info
      \<longrightarrow> device info = q"
    by (rule Cons.IH)
  then show ?case
    unfolding foldl_Cons .
qed

lemma poll_pass_unknown_path:
  assumes ok: "monitor_ok m"
    and none: "device_info_cache m p = None"
    and absent: "p \<notin> device ` set (usb_storage_devices pf)"
  shows "p \<notin> set (known_devices m) \<and> p \<notin> set (known_devices (poll_pass pf m))
    \<and> device_info_cache (poll_pass pf m) p = None
    \<and> callbacks_for p (poll_pass pf m) = callbacks_for p m"
proof -
  let ?cur = "usb_storage_devices pf"
  let ?paths = "remdups (map device ?cur)"
  let ?new = "filter (\<lambda>q. q \<notin> set (known_devices m)) ?paths"
  let ?m1 = "foldl (poll_insert pf ?cur) m ?new"
  let ?removed = "filter (\<lambda>q. q \<notin> set ?paths) (known_devices ?m1)"
  let ?m2 = "foldl (\<lambda>m q. remove_if_cached q m) ?m1 ?removed"
  have unknown: "p \<notin> set (known_devices m)"
    using ok none by (auto simp: monitor_ok_def)
  have "p \<notin> set ?new"
    using absent by auto
  then have c1: "device_info_cache ?m1 p = None" and f1: "callbacks_for p ?m1 = callbacks_for p m"
    using poll_inserts_other[of p ?new pf ?cur m] none by simp_all
  have ok1: "monitor_ok ?m1"
    using ok by (rule poll_inserts_ok)
  have c2: "device_info_cache ?m2 p = None" and f2: "callbacks_for p ?m2 = callbacks_for p ?m1"
    using poll_removes_other[OF ok1 c1, of ?removed] by simp_all
  have known: "known_devices (poll_pass pf m) = ?paths"
    by (simp add: poll_pass_def Let_def)
  have cache: "device_info_cache (poll_pass pf m)
      = foldl (\<lambda>c dev. c(device dev \<mapsto> dev)) (device_info_cache ?m2) ?cur"
    by (simp add: poll_pass_def Let_def)
  have calls: "callbacks (poll_pass pf m) = callbacks ?m2"
    by (simp add: poll_pass_def Let_def)
  have "p \<notin> set (known_devices (poll_pass pf m))"
    using absent by (simp add: known)
  moreover have "device_info_cache (poll_pass pf m) p = None"
    using cache_refresh_other[OF absent, of "device_info_cache ?m2"] c2 by (simp add: cache)
  moreover have "callbacks_for p (poll_pass pf m) = callbacks_for p m"
    using f1 f2 calls by (simp add: callbacks_for_def)
  ultimately show ?thesis
    using unknown by simp
qed

lemma poll_pass_ok:
  assumes "monitor_ok m"
  shows "monitor_ok (poll_pass pf m)"
proof -
  let ?cur = "usb_storage_devices pf"
  let ?paths = "remdups (map device ?cur)"
  let ?new = "filter (\<lambda>q. q \<notin> set (known_devices m)) ?paths"
  let ?m1 = "foldl (poll_insert pf ?cur) m ?new"
  let ?removed = "filter (\<lambda>q. q \<notin> set ?paths) (known_devices ?m1)"
  let ?m2 = "foldl (\<lambda>m q. remove_if_cached q m) ?m1 ?removed"
  have "monitor_ok ?m2"
    using assms by (simp add: poll_inserts_ok poll_removes_ok)
  then have cons: "\<forall>q info. device_info_cache ?m2 q = Some info \<longrightarrow> device info = q"
    unfolding monitor_ok_def by (rule conjunct2)
  have known: "known_devices (poll_pass pf m) = ?paths"
    by (simp add: poll_pass_def Let_def)
  have cache: "device_info_cache (poll_pass pf m)
      = foldl (\<lambda>c dev. c(device dev \<mapsto> dev)) (device_info_cache ?m2) ?cur"
    by (simp add: poll_pass_def Let_def)
  show ?thesis
    unfolding monitor_ok_def known cache
  proof (intro conjI)
    show "set ?paths \<subseteq> dom (foldl (\<lambda>c dev. c(device dev \<mapsto> dev)) (device_info_cache ?m2) ?cur)"
      by (simp add: cache_refresh_dom)
    show "\<forall>q info. foldl (\<lambda>c dev. c(device dev \<mapsto> dev)) (device_info_cache ?m2) ?cur q = Some info
        \<longrightarrow> device info = q"
      by (rule cache_refresh_consistent[OF cons])
  qed
qed

lemma pyudev_event_ok:
  assumes "monitor_ok m"
  shows "monitor_ok (pyudev_event pf ev m)"
  using assms
  by (simp add: pyudev_event_def handle_device_add_def handle_device_remove_def
      device_inserted_ok remove_if_cached_ok split: option.splits)

lemma monitor_init_ok: "monitor_ok monitor_init"
  by (simp add: monitor_ok_def monitor_init_def)

lemma scan_existing_devices_ok:
  assumes "monitor_ok m"
  shows "monitor_ok (scan_existing_devices pf m)"
proof -
  let ?cur = "usb_storage_devices pf"
  from assms have cons: "\<forall>q info. device_info_cache m q = Some info \<longrightarrow> device info = q"
    unfolding monitor_ok_def by (rule conjunct2)
  have known: "known_devices (scan_existing_devices pf m) = remdups (map device ?cur)"
    by (simp add: scan_existing_devices_def Let_def)
  have cache: "device_info_cache (scan_existing_devices pf m)
      = foldl (\<lambda>c dev. c(device dev \<mapsto> dev)) (device_info_cache m) ?cur"
    by (simp add: scan_existing_devices_def Let_def)
  show ?thesis
    unfolding monitor_ok_def known cache
  proof (intro conjI)
    show "set (remdups (map device ?cur))
        \<subseteq> dom (foldl (\<lambda>c dev. c(device dev \<mapsto> dev)) (device_info_cache m) ?cur)"
      by (simp add: cache_refresh_dom)
    show "\<forall>q info. foldl (\<lambda>c dev. c(device dev \<mapsto> dev)) (device_info_cache m) ?cur q = Some info
        \<longrightarrow> device info = q"
      by (rule cache_refresh_consistent[OF cons])
  qed
qed

text \<open>Every state the monitor goes through has the two properties: the initial state has
  them, and the start-up scan, every udev event and every polling pass keep them.\<close>

lemma monitor_ok_invariant:
  "monitor_ok monitor_init
   \<and> (monitor_ok m \<longrightarrow> monitor_ok (scan_existing_devices pf m)
        \<and> monitor_ok (pyudev_event pf ev m) \<and> monitor_ok (poll_pass pf m))"
  by (simp add: monitor_init_ok scan_existing_devices_ok pyudev_event_ok poll_pass_ok)

text \<open>
  Claim C10. A candidate removal for a path that is not in the cache changes nothing: no
  callback, the same known set, the same cache. This holds for a udev remove event
  (\<^verbatim>\<open>_handle_device_remove\<close>) and for the body of the removal loop of the polling pass.
  For the polling strategy as a whole: in every state the monitor goes through
  (\<open>monitor_ok\<close>) a path that is not in the cache is not in the known set either, so a
  polling pass that does not see the device never takes it for a removed one; after the
  pass the path is still neither known nor cached and no callback has been made for it,
  whatever the pass did for other devices.
\<close>

theorem remove_unknown_noop:
  assumes "device_info_cache m p = None"
  shows "handle_device_remove (Some p) m = m
    \<and> pyudev_event pf \<lparr>action = ''remove'', device_node = Some p\<rparr> m = m
    \<and> remove_if_cached p m = m
    \<and> (monitor_ok m \<longrightarrow> p \<notin> set (known_devices m))
    \<and> (monitor_ok m \<and> p \<notin> device ` set (usb_storage_devices pf) \<longrightarrow>
         p \<notin> set (known_devices (poll_pass pf m))
         \<and> device_info_cache (poll_pass pf m) p = None
         \<and> callbacks_for p (poll_pass pf m) = callbacks_for p m)"
proof -
  have signal: "handle_device_remove (Some p) m = m
      \<and> pyudev_event pf \<lparr>action = ''remove'', device_node = Some p\<rparr> m = m
      \<and> remove_if_cached p m = m"
    using assms by (simp add: handle_device_remove_def remove_if_cached_def pyudev_event_def)
  have unknown: "p \<notin> set (known_devices m)" if "monitor_ok m"
    using that assms by (auto simp: monitor_ok_def)
  have pass: "p \<notin> set (known_devices (poll_pass pf m))
      \<and> device_info_cache (poll_pass pf m) p = None
      \<and> callbacks_for p (poll_pass pf m) = callbacks_for p m"
    if "monitor_ok m" and "p \<notin> device ` set (usb_storage_devices pf)"
    using poll_pass_unknown_path[OF that(1) assms that(2)] by blast
  from signal unknown pass show ?thesis
    by blast
qed

theorem remove_unknown_noop_witness:
  "device_info_cache (poll_pass plugged monitor_init) ''/dev/sdc1'' = None
   \<and> monitor_ok (poll_pass plugged monitor_init)
   \<and> ''/dev/sdc1'' \<notin> device ` set (usb_storage_devices unplugged)
   \<and> handle_device_remove (Some ''/dev/sdc1'') (poll_pass plugged monitor_init)
       = poll_pass plugged monitor_init
   \<and> pyudev_event unplugged \<lparr>action = ''remove'', device_node = Some ''/dev/sdc1''\<rparr>
         (poll_pass plugged monitor_init)
       = poll_pass plugged monitor_init
   \<and> remove_if_cached ''/dev/sdc1'' (poll_pass plugged monitor_init)
       = poll_pass plugged monitor_init
   \<and> ''/dev/sdc1'' \<notin> set (known_devices (poll_pass plugged monitor_init))
   \<and> ''/dev/sdc1'' \<notin> set (known_devices (poll_pass unplugged (poll_pass plugged monitor_init)))
   \<and> device_info_cache (poll_pass unplugged (poll_pass plugged monitor_init)) ''/dev/sdc1'' = None
   \<and> callbacks (poll_pass unplugged (poll_pass plugged monitor_init))
       = [Inserted sdb1, Removed sdb1]
   \<and> callbacks_for ''/dev/sdc1'' (poll_pass unplugged (poll_pass plugged monitor_init)) = []"
proof -
  let ?m = "poll_pass plugged monitor_init"
  have m: "?m = \<lparr>known_devices = [''/dev/sdb1''],
                  device_info_cache = [''/dev/sdb1'' \<mapsto> sdb1],
                  callbacks = [Inserted sdb1]\<rparr>"
    by (simp add: poll_pass_def poll_insert_def device_inserted_def Let_def monitor_init_def
        set_add_def plugged_def sdb1_def)
  have h: "device_info_cache ?m ''/dev/sdc1'' = None"
    by (simp add: m)
  have ok: "monitor_ok ?m"
    by (simp add: poll_pass_ok monitor_init_ok)
  have absent: "''/dev/sdc1'' \<notin> device ` set (usb_storage_devices unplugged)"
    by (simp add: unplugged_def)
  have calls: "callbacks (poll_pass unplugged ?m) = [Inserted sdb1, Removed sdb1]"
    unfolding m
    by (simp add: poll_pass_def unplugged_def remove_if_cached_def device_removed_def Let_def
        set_discard_def sdb1_def)
  have before: "callbacks_for ''/dev/sdc1'' ?m = []"
    by (simp add: m callbacks_for_def sdb1_def)
  note noop = remove_unknown_noop[OF h, of unplugged]
  from noop have s1: "handle_device_remove (Some ''/dev/sdc1'') ?m = ?m"
    and s2: "pyudev_event unplugged \<lparr>action = ''remove'', device_node = Some ''/dev/sdc1''\<rparr> ?m = ?m"
    and s3: "remove_if_cached ''/dev/sdc1'' ?m = ?m"
    by blast+
  from noop ok have s4: "''/dev/sdc1'' \<notin> set (known_devices ?m)"
    by blast
  from noop ok absent have s5: "''/dev/sdc1'' \<notin> set (known_devices (poll_pass unplugged ?m))"
    and s6: "device_info_cache (poll_pass unplugged ?m) ''/dev/sdc1'' = None"
    and s7: "callbacks_for ''/dev/sdc1'' (poll_pass unplugged ?m) = callbacks_for ''/dev/sdc1'' ?m"
    by blast+
  from s7 before have s8: "callbacks_for ''/dev/sdc1'' (poll_pass unplugged ?m) = []"
    by (simp only:)
  from h ok absent s1 s2 s3 s4 s5 s6 calls s8 show ?thesis
    by (intro conjI)
qed

text \<open>
  Claim C2 (the event-subscription path). \<^verbatim>\<open>_handle_device_add\<close> never looks at the known
  set: after one udev add event for a mounted USB partition the path is known and its
  callback has fired, and a second add event for the same path fires the callback again.
  Two polling passes over the same device, in contrast, fire it once.
\<close>

theorem udev_add_twice_fires_twice:
  "''/dev/sdb1'' \<in> set (known_devices (monitor_with_pyudev [(plugged, add_sdb1)] monitor_init))
   \<and> insert_callbacks_for ''/dev/sdb1'' (monitor_with_pyudev [(plugged, add_sdb1)] monitor_init) = 1
   \<and> callbacks (monitor_with_pyudev [(plugged, add_sdb1), (plugged, add_sdb1)] monitor_init)
       = [Inserted sdb1, Inserted sdb1]
   \<and> insert_callbacks_for ''/dev/sdb1''
       (monitor_with_pyudev [(plugged, add_sdb1), (plugged, add_sdb1)] monitor_init) = 2
   \<and> callbacks (monitor_with_polling [plugged, plugged] monitor_init) = [Inserted sdb1]"
  by (simp add: monitor_with_pyudev_def monitor_with_polling_def pyudev_event_def add_sdb1_def
      handle_device_add_def plugged_def get_device_info_def device_inserted_def Let_def
      monitor_init_def set_add_def insert_callbacks_for_def sdb1_def poll_pass_def
      poll_insert_def remove_if_cached_def)

section \<open>Properties of the timestamp text format\<close>

lemma digit_val_digit_char: "d < 10 \<Longrightarrow> digit_val (digit_char d) = Some d"
  by (simp add: digit_val_def digit_char_def Let_def)

lemma parse_digits_2:
  "a < 10 \<Longrightarrow> b < 10 \<Longrightarrow> parse_digits 0 [digit_char a, digit_char b] = Some (a * 10 + b)"
  by (simp add: digit_val_digit_char)

lemma parse_digits_4:
  "a < 10 \<Longrightarrow> b < 10 \<Longrightarrow> c < 10 \<Longrightarrow> d < 10 \<Longrightarrow>
   parse_digits 0 [digit_char a, digit_char b, digit_char c, digit_char d]
     = Some (a * 1000 + (b * 100 + (c * 10 + d)))"
  by (simp add: digit_val_digit_char)

lemma parse_digits_6:
  "a < 10 \<Longrightarrow> b < 10 \<Longrightarrow> c < 10 \<Longrightarrow> d < 10 \<Longrightarrow> e < 10 \<Longrightarrow> f < 10 \<Longrightarrow>
   parse_digits 0 [digit_char a, digit_char b, digit_char c, digit_char d, digit_char e, digit_char f]
     = Some (a * 100000 + (b * 10000 + (c * 1000 + (d * 100 + (e * 10 + f)))))"
  by (simp add: digit_val_digit_char)

lemma mod_step: "(n::nat) div k mod 10 * k + n mod k = n mod (k * 10)"
  by (simp add: mod_mult2_eq)

lemma decimal_2: "(n::nat) < 100 \<Longrightarrow> n div 10 mod 10 * 10 + n mod 10 = n"
  using mod_step[of n 10] by simp

lemma decimal_4:
  "(n::nat) < 10000 \<Longrightarrow>
   n div 1000 mod 10 * 1000 + (n div 100 mod 10 * 100 + (n div 10 mod 10 * 10 + n mod 10)) = n"
  using mod_step[of n 10] mod_step[of n 100] mod_step[of n 1000] by simp

lemma decimal_6:
  "(n::nat) < 1000000 \<Longrightarrow>
   n div 100000 mod 10 * 100000 + (n div 10000 mod 10 * 10000 + (n div 1000 mod 10 * 1000
     + (n div 100 mod 10 * 100 + (n div 10 mod 10 * 10 + n mod 10)))) = n"
  using mod_step[of n 10] mod_step[of n 100] mod_step[of n 1000] mod_step[of n 10000]
    mod_step[of n 100000] by simp

lemma parse_pad2: "n < 100 \<Longrightarrow> parse_digits 0 (pad2 n) = Some n"
  unfolding pad2_def by (subst parse_digits_2) (simp_all only: decimal_2 pos_mod_bound zero_less_numeral)

lemma parse_pad4: "n < 10000 \<Longrightarrow> parse_digits 0 (pad4 n) = Some n"
  unfolding pad4_def by (subst parse_digits_4) (simp_all only: decimal_4 pos_mod_bound zero_less_numeral)

lemma parse_pad6: "n < 1000000 \<Longrightarrow> parse_digits 0 (pad6 n) = Some n"
  unfolding pad6_def by (subst parse_digits_6) (simp_all only: decimal_6 pos_mod_bound zero_less_numeral)


lemma length_pad2: "length (pad2 n) = 2"
  by (simp add: pad2_def)

lemma length_pad4: "length (pad4 n) = 4"
  by (simp add: pad4_def)

lemma length_pad6: "length (pad6 n) = 6"
  by (simp add: pad6_def)

lemma length_isoformat:
  "length (isoformat t) = (if microsecond t = 0 then 19 else 26)"
  by (simp add: isoformat_def length_pad2 length_pad4 length_pad6)

lemma valid_datetime_bounds:
  assumes "valid_datetime t"
  shows "year t < 10000" "month t < 100" "day t < 100" "hour t < 100" "minute t < 100"
    "second t < 100" "microsecond t < 1000000"
proof -
  have "days_in_month (year t) (month t) \<le> 31"
    by (simp add: days_in_month_def)
  with assms show "year t < 10000" "month t < 100" "day t < 100" "hour t < 100"
    "minute t < 100" "second t < 100" "microsecond t < 1000000"
    by (simp_all add: valid_datetime_def)
qed

lemma strict_fromisoformat_isoformat:
  assumes "valid_datetime t"
  shows "strict_fromisoformat (isoformat t) = Some t"
proof -
  note b = valid_datetime_bounds[OF assms]
  have fields:
    "parse_digits 0 (pad4 (year t)) = Some (year t)"
    "parse_digits 0 (pad2 (month t)) = Some (month t)"
    "parse_digits 0 (pad2 (day t)) = Some (day t)"
    "parse_digits 0 (pad2 (hour t)) = Some (hour t)"
    "parse_digits 0 (pad2 (minute t)) = Some (minute t)"
    "parse_digits 0 (pad2 (second t)) = Some (second t)"
    "parse_digits 0 (pad6 (microsecond t)) = Some (microsecond t)"
    using b by (simp_all add: parse_pad2 parse_pad4 parse_pad6)
  have rec0: "microsecond t = 0 \<Longrightarrow>
      \<lparr>year = year t, month = month t, day = day t, hour = hour t, minute = minute t,
       second = second t, microsecond = 0\<rparr> = t"
    by (cases t) simp
  have rec1: "\<lparr>year = year t, month = month t, day = day t, hour = hour t,
       minute = minute t, second = second t, microsecond = microsecond t\<rparr> = t"
    by (cases t) simp
  show ?thesis
  proof (cases "microsecond t = 0")
    case True
    then show ?thesis
      using assms
      by (simp add: strict_fromisoformat_def isoformat_def fields nth_append
          length_pad2 length_pad4 length_pad6 Let_def rec0)
  next
    case False
    then show ?thesis
      using assms
      by (simp add: strict_fromisoformat_def isoformat_def fields nth_append
          length_pad2 length_pad4 length_pad6 Let_def rec1)
  qed
qed

section \<open>Properties of the cleanup scheduler\<close>

lemma delete_file_iff:
  "delete_file out item = (local_deletion_ok out \<and> remote_deletion_ok out)"
  by (cases "cloud_deleted out")
     (auto simp: delete_file_def local_deletion_ok_def remote_deletion_ok_def Let_def)

lemma schedule_after_save: "cleanup_schedule (save_cleanup_schedule wo sch) = cleanup_schedule sch"
  by (cases wo) (simp_all add: save_cleanup_schedule_def)

lemma schedule_after_sweep:
  "cleanup_schedule (check_and_cleanup now outs wo sch)
   = remove_items (cleanup_schedule sch) (items_to_remove now outs 0 (cleanup_schedule sch))"
  by (simp add: check_and_cleanup_def Let_def schedule_after_save)

lemma items_to_remove_Nil: "items_to_remove now outs i [] = []"
  by (simp add: items_to_remove_def)

lemma items_to_remove_Cons:
  "items_to_remove now outs i (x # xs)
   = (if delete_after_days x \<le> days_since_upload now x
         \<and> local_deletion_ok (outs i) \<and> remote_deletion_ok (outs i)
      then x # items_to_remove now outs (Suc i) xs
      else items_to_remove now outs (Suc i) xs)"
  by (simp add: items_to_remove_def delete_file_iff)

lemma mset_remove_items: "mset (remove_items xs rs) = mset xs - mset rs"
  by (induction rs arbitrary: xs) simp_all

lemma removed_plus_kept:
  "mset (items_to_remove now outs i xs) + mset (kept_entries now outs i xs) = mset xs"
  by (induction xs arbitrary: i) (simp_all add: items_to_remove_Nil items_to_remove_Cons)

lemma removed_subset: "set (items_to_remove now outs i xs) \<subseteq> set xs"
  by (induction xs arbitrary: i) (auto simp: items_to_remove_Nil items_to_remove_Cons)

lemma remove_items_distinct:
  "distinct xs \<Longrightarrow> remove_items xs rs = filter (\<lambda>x. x \<notin> set rs) xs"
proof (induction rs arbitrary: xs)
  case Nil
  then show ?case by simp
next
  case (Cons r rs)
  have "remove1 r xs = filter (\<lambda>x. x \<noteq> r) xs"
    using Cons.prems by (simp add: distinct_remove1_removeAll removeAll_filter_not_eq) metis
  moreover have "distinct (remove1 r xs)"
    using Cons.prems by simp
  ultimately show ?case
    using Cons.IH[of "remove1 r xs"] by (simp add: conj_commute)
qed

lemma kept_entries_distinct:
  "distinct xs \<Longrightarrow>
   kept_entries now outs i xs = filter (\<lambda>x. x \<notin> set (items_to_remove now outs i xs)) xs"
proof (induction xs arbitrary: i)
  case Nil
  then show ?case by simp
next
  case (Cons x xs)
  let ?r = "items_to_remove now outs (Suc i) xs"
  have notin: "x \<notin> set ?r"
    using removed_subset[of now outs "Suc i" xs] Cons.prems by auto
  have ih: "kept_entries now outs (Suc i) xs = filter (\<lambda>y. y \<notin> set ?r) xs"
    using Cons by simp
  have rest: "filter (\<lambda>y. y \<noteq> x \<and> y \<notin> set ?r) xs = filter (\<lambda>y. y \<notin> set ?r) xs"
    using Cons.prems by (intro filter_cong) auto
  show ?case
    using notin by (simp add: ih items_to_remove_Cons rest)
qed

lemma kept_entries_nth:
  "i < length xs \<Longrightarrow>
   \<not> (delete_after_days (xs ! i) \<le> days_since_upload now (xs ! i)
      \<and> local_deletion_ok (outs (k + i)) \<and> remote_deletion_ok (outs (k + i))) \<Longrightarrow>
   xs ! i \<in> set (kept_entries now outs k xs)"
proof (induction xs arbitrary: i k)
  case Nil
  then show ?case by simp
next
  case (Cons x xs)
  show ?case
  proof (cases i)
    case 0
    with Cons.prems show ?thesis by auto
  next
    case (Suc j)
    with Cons.prems have "xs ! j \<in> set (kept_entries now outs (Suc k) xs)"
      using Cons.IH[of j "Suc k"] by simp
    with Suc show ?thesis by simp
  qed
qed

lemma timedelta_days_mono:
  "to_microseconds a \<le> to_microseconds b \<Longrightarrow> timedelta_days a t \<le> timedelta_days b t"
  by (simp add: timedelta_days_def us_per_day_def zdiv_mono1)

lemma due_entry_is_called:
  "x \<in> set xs \<Longrightarrow> delete_after_days x \<le> days_since_upload now x \<Longrightarrow>
   x \<in> set (map fst (delete_calls now outs k xs))"
  by (induction xs arbitrary: k) auto

text \<open>
  Claim C4. After a sweep the ledger holds, as a multiset, exactly the entries that were
  not due or for which the local or the remote deletion did not report success; when no
  two entries of the ledger are equal it is that list, in order. An entry that was due and
  whose deletion failed in part is still in the ledger, and every sweep at the same or a
  later time calls \<^verbatim>\<open>delete_file\<close> on it again.
\<close>

theorem sweep_removes_iff_both_succeed:
  "mset (cleanup_schedule (check_and_cleanup now outs wo sch))
     = mset (kept_entries now outs 0 (cleanup_schedule sch))
   \<and> (distinct (cleanup_schedule sch) \<longrightarrow>
        cleanup_schedule (check_and_cleanup now outs wo sch)
          = kept_entries now outs 0 (cleanup_schedule sch))
   \<and> (\<forall>i < length (cleanup_schedule sch).
        delete_after_days (cleanup_schedule sch ! i) \<le> days_since_upload now (cleanup_schedule sch ! i)
        \<and> \<not> (local_deletion_ok (outs i) \<and> remote_deletion_ok (outs i))
        \<longrightarrow> cleanup_schedule sch ! i \<in> set (cleanup_schedule (check_and_cleanup now outs wo sch))
          \<and> (\<forall>now' outs'. to_microseconds now \<le> to_microseconds now' \<longrightarrow>
                cleanup_schedule sch ! i
                  \<in> set (attempted now' outs' (check_and_cleanup now outs wo sch))))"
proof -
  let ?xs = "cleanup_schedule sch"
  let ?ys = "cleanup_schedule (check_and_cleanup now outs wo sch)"
  let ?rs = "items_to_remove now outs 0 ?xs"
  have ms: "mset ?ys = mset (kept_entries now outs 0 ?xs)"
  proof -
    have "mset ?ys = mset ?xs - mset ?rs"
      by (simp add: schedule_after_sweep mset_remove_items)
    also have "\<dots> = mset (kept_entries now outs 0 ?xs)"
      using removed_plus_kept[of now outs 0 ?xs, symmetric] by simp
    finally show ?thesis .
  qed
  have dist: "distinct ?xs \<longrightarrow> ?ys = kept_entries now outs 0 ?xs"
    by (simp add: schedule_after_sweep remove_items_distinct kept_entries_distinct)
  have retry: "?xs ! i \<in> set ?ys
      \<and> (\<forall>now' outs'. to_microseconds now \<le> to_microseconds now' \<longrightarrow>
            ?xs ! i \<in> set (attempted now' outs' (check_and_cleanup now outs wo sch)))"
    if i: "i < length ?xs"
      and due: "delete_after_days (?xs ! i) \<le> days_since_upload now (?xs ! i)"
      and failed: "\<not> (local_deletion_ok (outs i) \<and> remote_deletion_ok (outs i))"
    for i
  proof -
    have "?xs ! i \<in> set (kept_entries now outs 0 ?xs)"
      using kept_entries_nth[of i ?xs now outs 0] i failed by simp
    then have "?xs ! i \<in># mset ?ys"
      by (simp add: ms)
    then have mem: "?xs ! i \<in> set ?ys"
      by simp
    have "?xs ! i \<in> set (attempted now' outs' (check_and_cleanup now outs wo sch))"
      if later: "to_microseconds now \<le> to_microseconds now'" for now' outs'
    proof -
      have "delete_after_days (?xs ! i) \<le> days_since_upload now' (?xs ! i)"
        using due timedelta_days_mono[OF later, of "upload_time (?xs ! i)"]
        by (simp add: days_since_upload_def)
      with mem show ?thesis
        unfolding attempted_def by (rule due_entry_is_called)
    qed
    with mem show ?thesis by blast
  qed
  from ms dist retry show ?thesis by blast
qed

theorem sweep_removes_iff_both_succeed_witness:
  "distinct [item_a, item_b]
   \<and> delete_after_days item_a \<le> days_since_upload jan8 item_a
   \<and> \<not> (local_deletion_ok remote_failed \<and> remote_deletion_ok remote_failed)
   \<and> to_microseconds jan8 \<le> to_microseconds jan8
   \<and> cleanup_schedule (check_and_cleanup jan8 (\<lambda>i. if i = 0 then remote_failed else all_deleted)
        Written (scheduler_with [item_a, item_b])) = [item_a]
   \<and> item_a \<in> set (attempted jan8 (\<lambda>i. all_deleted)
        (check_and_cleanup jan8 (\<lambda>i. if i = 0 then remote_failed else all_deleted)
           Written (scheduler_with [item_a, item_b])))
   \<and> cleanup_schedule (check_and_cleanup jan8 (\<lambda>i. all_deleted) Written
        (check_and_cleanup jan8 (\<lambda>i. if i = 0 then remote_failed else all_deleted)
           Written (scheduler_with [item_a, item_b]))) = []"
proof -
  let ?outs = "\<lambda>i::nat. if i = 0 then remote_failed else all_deleted"
  let ?sch = "scheduler_with [item_a, item_b]"
  have xs: "cleanup_schedule ?sch = [item_a, item_b]"
    by (simp add: scheduler_with_def)
  have ne: "item_a \<noteq> item_b"
    by (simp add: item_a_def item_b_def)
  have d: "distinct [item_a, item_b]"
    using ne by simp
  have due_a: "delete_after_days item_a \<le> days_since_upload jan8 item_a"
    by (simp add: item_a_def days_since_upload_def timedelta_days_def to_microseconds_def
        toordinal_def days_before_year_def days_before_month_def is_leap_def jan1_def jan8_def
        us_per_day_def)
  have due_b: "delete_after_days item_b \<le> days_since_upload jan8 item_b"
    by (simp add: item_b_def days_since_upload_def timedelta_days_def to_microseconds_def
        toordinal_def days_before_year_def days_before_month_def is_leap_def jan1_def jan8_def
        us_per_day_def)
  have nr: "\<not> remote_deletion_ok remote_failed"
    by (simp add: remote_failed_def remote_deletion_ok_def)
  then have f: "\<not> (local_deletion_ok remote_failed \<and> remote_deletion_ok remote_failed)"
    by simp
  have ok: "local_deletion_ok all_deleted" "remote_deletion_ok all_deleted"
    by (simp_all add: all_deleted_def remote_deletion_ok_def local_deletion_ok_def)
  have k1: "kept_entries jan8 ?outs 0 [item_a, item_b] = [item_a]"
    using due_a due_b nr ok by simp
  have k2: "kept_entries jan8 (\<lambda>i. all_deleted) 0 [item_a] = []"
    using due_a ok by simp
  note thm1 = sweep_removes_iff_both_succeed[of jan8 ?outs Written ?sch]
  have imp: "distinct (cleanup_schedule ?sch) \<Longrightarrow>
      cleanup_schedule (check_and_cleanup jan8 ?outs Written ?sch)
        = kept_entries jan8 ?outs 0 (cleanup_schedule ?sch)"
    using thm1 by blast
  have first: "cleanup_schedule (check_and_cleanup jan8 ?outs Written ?sch) = [item_a]"
    using imp[unfolded xs, OF d] by (simp only: k1)
  have retry: "cleanup_schedule ?sch ! i
      \<in> set (attempted now' outs' (check_and_cleanup jan8 ?outs Written ?sch))"
    if "i < length (cleanup_schedule ?sch)"
      and "delete_after_days (cleanup_schedule ?sch ! i)
        \<le> days_since_upload jan8 (cleanup_schedule ?sch ! i)"
      and "\<not> (local_deletion_ok (?outs i) \<and> remote_deletion_ok (?outs i))"
      and "to_microseconds jan8 \<le> to_microseconds now'"
    for i now' outs'
    using thm1 that by blast
  have again: "item_a \<in> set (attempted jan8 (\<lambda>i. all_deleted)
      (check_and_cleanup jan8 ?outs Written ?sch))"
    using retry[of 0 jan8 "\<lambda>i. all_deleted"] due_a nr by (simp add: xs)
  note thm2 = sweep_removes_iff_both_succeed[of jan8 "\<lambda>i. all_deleted" Written
      "check_and_cleanup jan8 ?outs Written ?sch"]
  have "mset (cleanup_schedule (check_and_cleanup jan8 (\<lambda>i. all_deleted) Written
      (check_and_cleanup jan8 ?outs Written ?sch)))
      = mset (kept_entries jan8 (\<lambda>i. all_deleted) 0
          (cleanup_schedule (check_and_cleanup jan8 ?outs Written ?sch)))"
    using thm2 by blast
  then have "mset (cleanup_schedule (check_and_cleanup jan8 (\<lambda>i. all_deleted) Written
      (check_and_cleanup jan8 ?outs Written ?sch))) = mset []"
    by (simp only: first k2)
  then have second: "cleanup_schedule (check_and_cleanup jan8 (\<lambda>i. all_deleted) Written
      (check_and_cleanup jan8 ?outs Written ?sch)) = []"
    by simp
  from d due_a f first again second show ?thesis by simp
qed

text \<open>
  Claim C9. When the local file of an entry does not exist, \<^verbatim>\<open>delete_file\<close> succeeds
  exactly when the cloud deletion returns true; a sweep then removes a due entry on the
  strength of the cloud deletion alone.
\<close>

theorem missing_local_file_counts_as_deleted:
  assumes "\<not> local_exists out"
  shows "delete_file out item = (cloud_deleted out = Inr True)
    \<and> (delete_after_days item \<le> days_since_upload now item \<and> cloud_deleted out = Inr True
        \<longrightarrow> cleanup_schedule
              (check_and_cleanup now (\<lambda>i. out) wo (sch\<lparr>cleanup_schedule := [item]\<rparr>)) = [])"
proof -
  have a: "delete_file out item = (cloud_deleted out = Inr True)"
    using assms
    by (cases "cloud_deleted out") (auto simp: delete_file_def Let_def)
  have b: "local_deletion_ok out"
    using assms by (simp add: local_deletion_ok_def)
  show ?thesis
    by (simp add: a schedule_after_sweep items_to_remove_Cons items_to_remove_Nil b
        remote_deletion_ok_def)
qed

theorem missing_local_file_counts_as_deleted_witness:
  "\<not> local_exists local_missing
   \<and> delete_file local_missing item_a
   \<and> delete_after_days item_a \<le> days_since_upload jan8 item_a
   \<and> cloud_deleted local_missing = Inr True
   \<and> cleanup_schedule (check_and_cleanup jan8 (\<lambda>i. local_missing) Written
        ((scheduler_with [])\<lparr>cleanup_schedule := [item_a]\<rparr>)) = []"
proof -
  have h: "\<not> local_exists local_missing"
    by (simp add: local_missing_def)
  have c: "cloud_deleted local_missing = Inr True"
    by (simp add: local_missing_def)
  have due_a: "delete_after_days item_a \<le> days_since_upload jan8 item_a"
    by (simp add: item_a_def days_since_upload_def timedelta_days_def to_microseconds_def
        toordinal_def days_before_year_def days_before_month_def is_leap_def jan1_def jan8_def
        us_per_day_def)
  from missing_local_file_counts_as_deleted[OF h, of item_a jan8 Written "scheduler_with []"]
  show ?thesis
    using h c due_a by simp
qed

lemma items_to_remove_count:
  "delete_after_days x \<le> days_since_upload now x \<Longrightarrow>
   \<forall>j < length xs. xs ! j = x \<longrightarrow>
      local_deletion_ok (outs (i + j)) \<and> remote_deletion_ok (outs (i + j)) \<Longrightarrow>
   count (mset (items_to_remove now outs i xs)) x = count (mset xs) x"
proof (induction xs arbitrary: i)
  case Nil
  then show ?case by (simp add: items_to_remove_Nil)
next
  case (Cons y ys)
  have rest: "\<forall>j < length ys. ys ! j = x \<longrightarrow>
      local_deletion_ok (outs (Suc i + j)) \<and> remote_deletion_ok (outs (Suc i + j))"
  proof (intro allI impI)
    fix j
    assume "j < length ys" and "ys ! j = x"
    then have "Suc j < length (y # ys)" and "(y # ys) ! Suc j = x"
      by simp_all
    with Cons.prems(2) have "local_deletion_ok (outs (i + Suc j))
        \<and> remote_deletion_ok (outs (i + Suc j))"
      by blast
    then show "local_deletion_ok (outs (Suc i + j)) \<and> remote_deletion_ok (outs (Suc i + j))"
      by simp
  qed
  have ih: "count (mset (items_to_remove now outs (Suc i) ys)) x = count (mset ys) x"
    using Cons.IH[OF Cons.prems(1) rest] .
  show ?case
  proof (cases "y = x")
    case True
    have "local_deletion_ok (outs (i + 0)) \<and> remote_deletion_ok (outs (i + 0))"
      using Cons.prems(2) True by (metis length_greater_0_conv list.discI nth_Cons_0)
    with True Cons.prems(1) ih show ?thesis
      by (simp add: items_to_remove_Cons)
  next
    case False
    with ih show ?thesis
      by (simp add: items_to_remove_Cons)
  qed
qed

lemma not_due_not_called:
  "\<not> delete_after_days x \<le> days_since_upload now x \<Longrightarrow>
   x \<notin> set (map fst (delete_calls now outs i xs))"
  by (induction xs arbitrary: i) auto

lemma not_due_not_removed:
  "\<not> delete_after_days x \<le> days_since_upload now x \<Longrightarrow>
   x \<notin> set (items_to_remove now outs i xs)"
  by (induction xs arbitrary: i) (auto simp: items_to_remove_Nil items_to_remove_Cons)

lemma int_div_less:
  fixes a d r :: int
  assumes "0 < d" and "a < r * d"
  shows "a div d < r"
proof (rule ccontr)
  assume "\<not> a div d < r"
  then have "r \<le> a div d"
    by simp
  then have "r * d \<le> a div d * d"
    using assms(1) by (simp add: mult_right_mono)
  also have "\<dots> = a - a mod d"
    by (simp add: minus_mod_eq_div_mult)
  also have "\<dots> \<le> a"
    using assms(1) by simp
  finally show False
    using assms(2) by simp
qed

lemma timedelta_days_less:
  assumes "to_microseconds a < to_microseconds b + r * us_per_day"
  shows "timedelta_days a b < r"
proof -
  have pos: "0 < us_per_day"
    by (simp add: us_per_day_def)
  have "to_microseconds a - to_microseconds b < r * us_per_day"
    using assms by simp
  with pos show ?thesis
    unfolding timedelta_days_def by (rule int_div_less)
qed

text \<open>
  Claim C6. When the current time of a sweep is the creation time of an entry plus exactly
  its retention period in days, the elapsed whole days equal the retention period and
  the test \<open>elapsed \<ge> retention\<close> holds: the sweep calls \<^verbatim>\<open>delete_file\<close> on the entry, and
  when the deletion succeeds wherever the entry stands in the ledger, the entry is gone
  from the ledger after the sweep. A sweep at any earlier time does not call
  \<^verbatim>\<open>delete_file\<close> on the entry and leaves it in the ledger.
\<close>

theorem due_at_exact_retention:
  assumes "to_microseconds now
      = to_microseconds (upload_time item) + delete_after_days item * us_per_day"
    and "item \<in> set (cleanup_schedule sch)"
  shows "days_since_upload now item = delete_after_days item
    \<and> delete_after_days item \<le> days_since_upload now item
    \<and> item \<in> set (attempted now outs sch)
    \<and> ((\<forall>i < length (cleanup_schedule sch). cleanup_schedule sch ! i = item \<longrightarrow>
           local_deletion_ok (outs i) \<and> remote_deletion_ok (outs i))
        \<longrightarrow> item \<notin> set (cleanup_schedule (check_and_cleanup now outs wo sch)))
    \<and> (\<forall>now' outs'. to_microseconds now' < to_microseconds now \<longrightarrow>
          item \<notin> set (attempted now' outs' sch)
          \<and> item \<in> set (cleanup_schedule (check_and_cleanup now' outs' wo sch)))"
proof -
  let ?xs = "cleanup_schedule sch"
  have a: "days_since_upload now item = delete_after_days item"
    using assms(1) by (simp add: days_since_upload_def timedelta_days_def us_per_day_def)
  then have due: "delete_after_days item \<le> days_since_upload now item"
    by simp
  with assms(2) have called: "item \<in> set (attempted now outs sch)"
    unfolding attempted_def by (rule due_entry_is_called)
  have gone: "item \<notin> set (cleanup_schedule (check_and_cleanup now outs wo sch))"
    if ok: "\<forall>i < length ?xs. ?xs ! i = item \<longrightarrow>
        local_deletion_ok (outs i) \<and> remote_deletion_ok (outs i)"
  proof -
    have "\<forall>j < length ?xs. ?xs ! j = item \<longrightarrow>
        local_deletion_ok (outs (0 + j)) \<and> remote_deletion_ok (outs (0 + j))"
      using ok by simp
    then have "count (mset (items_to_remove now outs 0 ?xs)) item = count (mset ?xs) item"
      by (rule items_to_remove_count[OF due])
    then have "count (mset (cleanup_schedule (check_and_cleanup now outs wo sch))) item = 0"
      by (simp add: schedule_after_sweep mset_remove_items)
    then show ?thesis
      by (simp add: count_eq_zero_iff)
  qed
  have early: "item \<notin> set (attempted now' outs' sch)
      \<and> item \<in> set (cleanup_schedule (check_and_cleanup now' outs' wo sch))"
    if before: "to_microseconds now' < to_microseconds now" for now' outs'
  proof -
    have "days_since_upload now' item < delete_after_days item"
      unfolding days_since_upload_def
      using before assms(1) by (intro timedelta_days_less) simp
    then have nd: "\<not> delete_after_days item \<le> days_since_upload now' item"
      by simp
    have n1: "item \<notin> set (attempted now' outs' sch)"
      unfolding attempted_def using nd by (rule not_due_not_called)
    have "item \<notin> set (items_to_remove now' outs' 0 ?xs)"
      using nd by (rule not_due_not_removed)
    then have z: "count (mset (items_to_remove now' outs' 0 ?xs)) item = 0"
      by (simp add: count_eq_zero_iff)
    have "count (mset (cleanup_schedule (check_and_cleanup now' outs' wo sch))) item
        = count (mset ?xs) item - count (mset (items_to_remove now' outs' 0 ?xs)) item"
      by (simp add: schedule_after_sweep mset_remove_items)
    then have same: "count (mset (cleanup_schedule (check_and_cleanup now' outs' wo sch))) item
        = count (mset ?xs) item"
      by (simp only: z diff_zero)
    have "0 < count (mset ?xs) item"
      using assms(2) by simp
    then have "0 < count (mset (cleanup_schedule (check_and_cleanup now' outs' wo sch))) item"
      by (simp only: same)
    then have "item \<in># mset (cleanup_schedule (check_and_cleanup now' outs' wo sch))"
      by (simp only: count_greater_zero_iff)
    then have "item \<in> set (cleanup_schedule (check_and_cleanup now' outs' wo sch))"
      by simp
    with n1 show ?thesis by simp
  qed
  from a due called gone early show ?thesis
    by blast
qed

theorem due_at_exact_retention_witness:
  "to_microseconds jan8 = to_microseconds (upload_time item_a) + delete_after_days item_a * us_per_day
   \<and> item_a \<in> set (cleanup_schedule (scheduler_with [item_a, item_b]))
   \<and> days_since_upload jan8 item_a = 7
   \<and> item_a \<in> set (attempted jan8 (\<lambda>i. all_deleted) (scheduler_with [item_a, item_b]))
   \<and> local_deletion_ok all_deleted \<and> remote_deletion_ok all_deleted
   \<and> item_a \<notin> set (cleanup_schedule (check_and_cleanup jan8 (\<lambda>i. all_deleted) Written
        (scheduler_with [item_a, item_b])))
   \<and> to_microseconds jan8_early < to_microseconds jan8
   \<and> item_a \<notin> set (attempted jan8_early (\<lambda>i. all_deleted) (scheduler_with [item_a, item_b]))
   \<and> item_a \<in> set (cleanup_schedule (check_and_cleanup jan8_early (\<lambda>i. all_deleted) Written
        (scheduler_with [item_a, item_b])))"
proof -
  let ?sch = "scheduler_with [item_a, item_b]"
  have h1: "to_microseconds jan8
      = to_microseconds (upload_time item_a) + delete_after_days item_a * us_per_day"
    by (simp add: item_a_def to_microseconds_def toordinal_def days_before_year_def
        days_before_month_def is_leap_def jan1_def jan8_def us_per_day_def)
  have h2: "item_a \<in> set (cleanup_schedule ?sch)"
    by (simp add: scheduler_with_def)
  have r: "delete_after_days item_a = 7"
    by (simp add: item_a_def)
  have ok: "local_deletion_ok all_deleted \<and> remote_deletion_ok all_deleted"
    by (simp add: all_deleted_def remote_deletion_ok_def local_deletion_ok_def)
  have before: "to_microseconds jan8_early < to_microseconds jan8"
    by (simp add: to_microseconds_def toordinal_def days_before_year_def
        days_before_month_def is_leap_def jan8_early_def jan8_def)
  note exact = due_at_exact_retention[OF h1 h2, of "\<lambda>i. all_deleted" Written]
  from exact have d: "days_since_upload jan8 item_a = delete_after_days item_a"
    and c: "item_a \<in> set (attempted jan8 (\<lambda>i. all_deleted) ?sch)"
    by blast+
  from exact ok
  have g: "item_a \<notin> set (cleanup_schedule (check_and_cleanup jan8 (\<lambda>i. all_deleted) Written ?sch))"
    by blast
  from exact before
  have e1: "item_a \<notin> set (attempted jan8_early (\<lambda>i. all_deleted) ?sch)"
    and e2: "item_a \<in> set (cleanup_schedule
        (check_and_cleanup jan8_early (\<lambda>i. all_deleted) Written ?sch))"
    by blast+
  from d r have d7: "days_since_upload jan8 item_a = 7"
    by (simp only:)
  from h1 h2 d7 c ok g before e1 e2 show ?thesis
    by (intro conjI) simp_all
qed

lemma convert_to_json:
  "parse (isoformat (upload_time item)) = Some (upload_time item) \<Longrightarrow>
   convert_item parse (JsonItem (to_json item)) = Some item"
  by (simp add: convert_item_def to_json_def)

lemma convert_items_to_json:
  "\<forall>item \<in> set items. parse (isoformat (upload_time item)) = Some (upload_time item) \<Longrightarrow>
   convert_items parse (map (\<lambda>item. JsonItem (to_json item)) items) = Some items"
  by (induction items) (simp_all add: convert_to_json)

lemma load_after_save:
  assumes "\<forall>item \<in> set (cleanup_schedule sch).
      parse (isoformat (upload_time item)) = Some (upload_time item)"
  shows "load_document parse (cleanup_db (save_cleanup_schedule Written sch))
    = (cleanup_schedule sch, PyList)"
  using convert_items_to_json[OF assms]
  by (simp add: load_document_def save_cleanup_schedule_def)

text \<open>
  Claim C7. Save the ledger, let the in-memory ledger be anything at all (as after a
  restart, when only the file is left), and load: the ledger is again a list that holds
  the entries that were saved, field by field, in the same order. This holds with every
  parser that reads back the text \<^verbatim>\<open>isoformat()\<close> wrote for each timestamp of the ledger,
  and in particular, when every timestamp is representable, with the parser that reads
  exactly the texts \<^verbatim>\<open>isoformat()\<close> writes.
\<close>

theorem save_then_load_is_identity:
  "((\<forall>item \<in> set (cleanup_schedule sch).
        parse (isoformat (upload_time item)) = Some (upload_time item)) \<longrightarrow>
      cleanup_schedule (load_cleanup_schedule parse
         ((save_cleanup_schedule Written sch)\<lparr>cleanup_schedule := other, cleanup_schedule_type := ty\<rparr>))
        = cleanup_schedule sch
      \<and> cleanup_schedule_type (load_cleanup_schedule parse
         ((save_cleanup_schedule Written sch)\<lparr>cleanup_schedule := other, cleanup_schedule_type := ty\<rparr>))
        = PyList)
   \<and> ((\<forall>item \<in> set (cleanup_schedule sch). valid_datetime (upload_time item)) \<longrightarrow>
      cleanup_schedule (load_cleanup_schedule strict_fromisoformat
         ((save_cleanup_schedule Written sch)\<lparr>cleanup_schedule := other, cleanup_schedule_type := ty\<rparr>))
        = cleanup_schedule sch)"
proof -
  let ?saved = "(save_cleanup_schedule Written sch)\<lparr>cleanup_schedule := other,
      cleanup_schedule_type := ty\<rparr>"
  have db: "cleanup_db ?saved = cleanup_db (save_cleanup_schedule Written sch)"
    by simp
  have general: "cleanup_schedule (load_cleanup_schedule p ?saved) = cleanup_schedule sch
      \<and> cleanup_schedule_type (load_cleanup_schedule p ?saved) = PyList"
    if "\<forall>item \<in> set (cleanup_schedule sch). p (isoformat (upload_time item)) = Some (upload_time item)"
    for p
    using load_after_save[OF that] by (simp add: load_cleanup_schedule_def db)
  have "\<forall>item \<in> set (cleanup_schedule sch).
      strict_fromisoformat (isoformat (upload_time item)) = Some (upload_time item)"
    if "\<forall>item \<in> set (cleanup_schedule sch). valid_datetime (upload_time item)"
    using that by (simp add: strict_fromisoformat_isoformat)
  with general show ?thesis
    by blast
qed

theorem save_then_load_is_identity_witness:
  "strict_fromisoformat (isoformat (upload_time item_a)) = Some (upload_time item_a)
   \<and> strict_fromisoformat (isoformat (upload_time item_b)) = Some (upload_time item_b)
   \<and> valid_datetime (upload_time item_a) \<and> valid_datetime (upload_time item_b)
   \<and> cleanup_schedule (load_cleanup_schedule strict_fromisoformat
        ((save_cleanup_schedule Written (scheduler_with [item_a, item_b]))
           \<lparr>cleanup_schedule := [item_stale], cleanup_schedule_type := PyDict\<rparr>))
      = [item_a, item_b]
   \<and> cleanup_schedule_type (load_cleanup_schedule strict_fromisoformat
        ((save_cleanup_schedule Written (scheduler_with [item_a, item_b]))
           \<lparr>cleanup_schedule := [item_stale], cleanup_schedule_type := PyDict\<rparr>))
      = PyList"
proof -
  let ?sch = "scheduler_with [item_a, item_b]"
  have v: "valid_datetime jan1"
    by (simp add: valid_datetime_def jan1_def days_in_month_def)
  have va: "valid_datetime (upload_time item_a)" and vb: "valid_datetime (upload_time item_b)"
    using v by (simp_all add: item_a_def item_b_def)
  have pa: "strict_fromisoformat (isoformat (upload_time item_a)) = Some (upload_time item_a)"
    and pb: "strict_fromisoformat (isoformat (upload_time item_b)) = Some (upload_time item_b)"
    using va vb by (simp_all add: strict_fromisoformat_isoformat)
  have xs: "cleanup_schedule ?sch = [item_a, item_b]"
    by (simp add: scheduler_with_def)
  have h: "\<forall>item \<in> set (cleanup_schedule ?sch).
      strict_fromisoformat (isoformat (upload_time item)) = Some (upload_time item)"
    using pa pb by (simp add: xs)
  note round = save_then_load_is_identity[where sch = ?sch and parse = strict_fromisoformat
      and other = "[item_stale]" and ty = PyDict]
  from round h
  have l1: "cleanup_schedule (load_cleanup_schedule strict_fromisoformat
        ((save_cleanup_schedule Written ?sch)
           \<lparr>cleanup_schedule := [item_stale], cleanup_schedule_type := PyDict\<rparr>))
      = cleanup_schedule ?sch"
    and l2: "cleanup_schedule_type (load_cleanup_schedule strict_fromisoformat
        ((save_cleanup_schedule Written ?sch)
           \<lparr>cleanup_schedule := [item_stale], cleanup_schedule_type := PyDict\<rparr>))
      = PyList"
    by blast+
  from l1 xs
  have l1': "cleanup_schedule (load_cleanup_schedule strict_fromisoformat
        ((save_cleanup_schedule Written ?sch)
           \<lparr>cleanup_schedule := [item_stale], cleanup_schedule_type := PyDict\<rparr>))
      = [item_a, item_b]"
    by (simp only:)
  from pa pb va vb l1' l2 show ?thesis
    by (intro conjI)
qed

lemma convert_items_all_or_nothing:
  "convert_items parse es
   = (if list_all (parsable parse) es then Some (map (the \<circ> convert_item parse) es) else None)"
  by (induction es) (auto simp: parsable_def split: option.splits)

lemma load_document_array:
  "load_document parse (Document (JsonArray es))
   = (if list_all (parsable parse) es then (map (the \<circ> convert_item parse) es, PyList)
      else ([], PyList))"
  by (simp add: load_document_def convert_items_all_or_nothing)

lemma parsable_iff:
  "parsable parse e
   \<longleftrightarrow> (\<exists>j s. e = JsonItem j \<and> json_upload_time j = Some s \<and> parse s \<noteq> None)"
  by (cases e) (auto simp: parsable_def convert_item_def split: option.splits)

text \<open>
  Claim C5, as the code has it. Loading never fails. When the file holds an array and
  every element is an object whose timestamp \<^verbatim>\<open>datetime.fromisoformat\<close> accepts, every
  entry is kept, in order. When at least one element is not such an object, the loaded
  ledger is the empty list. A missing or unreadable file, or a document that is not an
  array, gives a ledger without entries: the empty list, except that the empty object
  and the empty string stay in the attribute as they are.
\<close>

theorem load_is_all_or_nothing:
  "(cleanup_db sch = Document (JsonArray es) \<and> list_all (parsable parse) es \<longrightarrow>
      map Some (cleanup_schedule (load_cleanup_schedule parse sch)) = map (convert_item parse) es)
   \<and> (cleanup_db sch = Document (JsonArray es) \<and> \<not> list_all (parsable parse) es \<longrightarrow>
      cleanup_schedule (load_cleanup_schedule parse sch) = [])
   \<and> ((\<forall>es'. cleanup_db sch \<noteq> Document (JsonArray es')) \<longrightarrow>
      cleanup_schedule (load_cleanup_schedule parse sch) = [])
   \<and> (cleanup_schedule_type (load_cleanup_schedule parse sch)
        = (if cleanup_db sch = Document (JsonObject []) then PyDict
           else if cleanup_db sch = Document (JsonString []) then PyStr
           else PyList))
   \<and> (parsable parse e
        \<longleftrightarrow> (\<exists>j s. e = JsonItem j \<and> json_upload_time j = Some s \<and> parse s \<noteq> None))"
proof -
  have conv: "map Some (map (the \<circ> convert_item parse) es) = map (convert_item parse) es"
    if "list_all (parsable parse) es"
    using that by (induction es) (auto simp: parsable_def)
  have all: "cleanup_db sch = Document (JsonArray es) \<and> list_all (parsable parse) es \<longrightarrow>
      map Some (cleanup_schedule (load_cleanup_schedule parse sch)) = map (convert_item parse) es"
    using conv by (simp add: load_cleanup_schedule_def load_document_array)
  have none_kept: "cleanup_db sch = Document (JsonArray es) \<and> \<not> list_all (parsable parse) es \<longrightarrow>
      cleanup_schedule (load_cleanup_schedule parse sch) = []"
    by (simp add: load_cleanup_schedule_def load_document_array)
  have other: "(\<forall>es'. cleanup_db sch \<noteq> Document (JsonArray es')) \<longrightarrow>
      cleanup_schedule (load_cleanup_schedule parse sch) = []"
    by (simp add: load_cleanup_schedule_def load_document_def
        split: ledger_file.splits json_document.splits)
  have ty: "cleanup_schedule_type (load_cleanup_schedule parse sch)
        = (if cleanup_db sch = Document (JsonObject []) then PyDict
           else if cleanup_db sch = Document (JsonString []) then PyStr
           else PyList)"
    by (simp add: load_cleanup_schedule_def load_document_def
        split: ledger_file.splits json_document.splits option.splits)
  show ?thesis
    by (intro conjI all none_kept other ty parsable_iff)
qed

theorem load_is_all_or_nothing_witness:
  "list_all (parsable strict_fromisoformat) [JsonItem good_json]
   \<and> map Some (cleanup_schedule (load_cleanup_schedule strict_fromisoformat
        ((scheduler_with [])\<lparr>cleanup_db := Document (JsonArray [JsonItem good_json])\<rparr>)))
      = [convert_item strict_fromisoformat (JsonItem good_json)]
   \<and> \<not> list_all (parsable strict_fromisoformat) [JsonItem good_json, JsonItem corrupt_json]
   \<and> cleanup_schedule (load_cleanup_schedule strict_fromisoformat
        ((scheduler_with [])\<lparr>cleanup_db := Document (JsonArray [JsonItem good_json,
           JsonItem corrupt_json])\<rparr>)) = []
   \<and> cleanup_schedule (load_cleanup_schedule strict_fromisoformat (scheduler_with [item_a])) = []
   \<and> cleanup_schedule (load_cleanup_schedule strict_fromisoformat
        ((scheduler_with [item_a])\<lparr>cleanup_db := Document (JsonObject [])\<rparr>)) = []
   \<and> cleanup_schedule_type (load_cleanup_schedule strict_fromisoformat
        ((scheduler_with [item_a])\<lparr>cleanup_db := Document (JsonObject [])\<rparr>)) = PyDict"
proof -
  let ?one = "(scheduler_with [])\<lparr>cleanup_db := Document (JsonArray [JsonItem good_json])\<rparr>"
  let ?two = "(scheduler_with [])\<lparr>cleanup_db := Document (JsonArray [JsonItem good_json,
      JsonItem corrupt_json])\<rparr>"
  let ?obj = "(scheduler_with [item_a])\<lparr>cleanup_db := Document (JsonObject [])\<rparr>"
  have g: "parsable strict_fromisoformat (JsonItem good_json)"
    by (simp add: parsable_def convert_item_def good_json_def strict_fromisoformat_def
        digit_val_def valid_datetime_def days_in_month_def)
  have c: "\<not> parsable strict_fromisoformat (JsonItem corrupt_json)"
    by (simp add: parsable_def convert_item_def corrupt_json_def strict_fromisoformat_def)
  have n: "\<forall>es'. cleanup_db (scheduler_with [item_a]) \<noteq> Document (JsonArray es')"
    by (simp add: scheduler_with_def)
  have o: "\<forall>es'. cleanup_db ?obj \<noteq> Document (JsonArray es')"
    by simp
  have od: "cleanup_db ?obj = Document (JsonObject [])"
    by simp
  have one: "cleanup_db ?one = Document (JsonArray [JsonItem good_json])"
    and two: "cleanup_db ?two = Document (JsonArray [JsonItem good_json, JsonItem corrupt_json])"
    by simp_all
  have g1: "list_all (parsable strict_fromisoformat) [JsonItem good_json]"
    using g by simp
  have c2: "\<not> list_all (parsable strict_fromisoformat) [JsonItem good_json, JsonItem corrupt_json]"
    using c by simp
  from load_is_all_or_nothing[where sch = ?one and es = "[JsonItem good_json]"
      and parse = strict_fromisoformat] one g1
  have r1: "map Some (cleanup_schedule (load_cleanup_schedule strict_fromisoformat ?one))
      = map (convert_item strict_fromisoformat) [JsonItem good_json]"
    by blast
  from load_is_all_or_nothing[where sch = ?two
      and es = "[JsonItem good_json, JsonItem corrupt_json]" and parse = strict_fromisoformat] two c2
  have r2: "cleanup_schedule (load_cleanup_schedule strict_fromisoformat ?two) = []"
    by blast
  from load_is_all_or_nothing[where sch = "scheduler_with [item_a]" and es = "[]"
      and parse = strict_fromisoformat] n
  have r3: "cleanup_schedule (load_cleanup_schedule strict_fromisoformat (scheduler_with [item_a])) = []"
    by blast
  from load_is_all_or_nothing[where sch = ?obj and es = "[]" and parse = strict_fromisoformat] o
  have r4: "cleanup_schedule (load_cleanup_schedule strict_fromisoformat ?obj) = []"
    by blast
  from load_is_all_or_nothing[where sch = ?obj and es = "[]" and parse = strict_fromisoformat]
  have "cleanup_schedule_type (load_cleanup_schedule strict_fromisoformat ?obj)
      = (if cleanup_db ?obj = Document (JsonObject []) then PyDict
         else if cleanup_db ?obj = Document (JsonString []) then PyStr
         else PyList)"
    by blast
  then have r5: "cleanup_schedule_type (load_cleanup_schedule strict_fromisoformat ?obj) = PyDict"
    by (simp add: od)
  from r1 have r1': "map Some (cleanup_schedule (load_cleanup_schedule strict_fromisoformat ?one))
      = [convert_item strict_fromisoformat (JsonItem good_json)]"
    by simp
  from g1 r1' c2 r2 r3 r4 r5 show ?thesis
    by (intro conjI)
qed

text \<open>
  Claim C5, as stated, fails: a file whose first entry is well formed and whose second
  entry has the timestamp \<^verbatim>\<open>yesterday\<close> loads as the empty ledger; the well-formed entry
  is discarded with its corrupt sibling. \<^verbatim>\<open>datetime.fromisoformat\<close> reads the first
  timestamp and rejects the second, as the parser used here does.
\<close>

theorem load_drops_wellformed_sibling:
  "convert_item strict_fromisoformat (JsonItem good_json)
     = Some \<lparr>file_path = ''/tmp/a.zip'', download_link = ''https://cloud/s/a'',
             upload_time = \<lparr>year = 2024, month = 1, day = 1, hour = 12, minute = 30, second = 0,
                             microsecond = 0\<rparr>,
             filename = ''a.zip'', delete_after_days = 7\<rparr>
   \<and> convert_item strict_fromisoformat (JsonItem corrupt_json) = None
   \<and> cleanup_schedule (load_cleanup_schedule strict_fromisoformat
        \<lparr>cleanup_schedule = [], cleanup_schedule_type = PyList,
         cleanup_db = Document (JsonArray [JsonItem good_json, JsonItem corrupt_json]),
         auto_delete_days = 7\<rparr>) = []"
  by (simp add: load_cleanup_schedule_def load_document_def convert_item_def good_json_def
      corrupt_json_def strict_fromisoformat_def digit_val_def valid_datetime_def
      days_in_month_def)

section \<open>Properties of the processing pipeline\<close>

lemma process_scheduled_iff:
  "ScheduleCall r l \<in> set (fst (process_usb_drive co now wo dev sch))
   \<longleftrightarrow> (\<exists>mp scan zip addr.
         nonempty (mount_point dev) = Some mp \<and> path_exists co mp
         \<and> scan_directory co mp = Inr scan
         \<and> infected_files scan = [] \<and> safe_files scan \<noteq> []
         \<and> nonempty (create_zip co (safe_files scan)) = Some zip
         \<and> upload_file co zip = UploadOk r
         \<and> nonempty (create_public_share co r) = Some l
         \<and> nonempty (get_email_address co) = Some addr
         \<and> send_notification co addr l zip)"
  unfolding process_usb_drive_def Let_def
  by (auto split: option.splits sum.splits upload_result.splits)

lemma process_ledger_scheduled:
  "ScheduleCall r l \<in> set (fst (process_usb_drive co now wo dev sch)) \<Longrightarrow>
   snd (process_usb_drive co now wo dev sch) = schedule_deletion r l now wo sch"
  unfolding process_usb_drive_def Let_def
  by (auto split: option.splits sum.splits upload_result.splits if_splits)

lemma process_ledger_unscheduled:
  "\<forall>r l. ScheduleCall r l \<notin> set (fst (process_usb_drive co now wo dev sch)) \<Longrightarrow>
   snd (process_usb_drive co now wo dev sch) = sch"
  unfolding process_usb_drive_def Let_def
  by (auto split: option.splits sum.splits upload_result.splits if_splits)

lemma process_infected_stops:
  "nonempty (mount_point dev) = Some mp \<Longrightarrow> scan_directory co mp = Inr scan \<Longrightarrow>
   infected_files scan \<noteq> [] \<Longrightarrow>
   (\<forall>a \<in> set (fst (process_usb_drive co now wo dev sch)). \<not> produces_artifact a)
   \<and> snd (process_usb_drive co now wo dev sch) = sch"
  unfolding process_usb_drive_def Let_def
  by simp

lemma process_ledger_appended:
  assumes "ScheduleCall r l \<in> set (fst (process_usb_drive co now wo dev sch))"
    and "cleanup_schedule_type sch = PyList"
  shows "cleanup_schedule (snd (process_usb_drive co now wo dev sch))
    = cleanup_schedule sch
      @ [\<lparr>file_path = r, download_link = l, upload_time = now, filename = basename r,
          delete_after_days = auto_delete_days sch\<rparr>]"
proof -
  have "snd (process_usb_drive co now wo dev sch) = schedule_deletion r l now wo sch"
    using assms(1) by (rule process_ledger_scheduled)
  then show ?thesis
    using assms(2)
    by (simp add: schedule_deletion_def schedule_deletion_error_def Let_def schedule_after_save)
qed

text \<open>
  Claim C1. For a device job, \<^verbatim>\<open>schedule_deletion\<close> is called, with the remote path and
  the share link, exactly when the mount point is usable, the scan returns with no
  infected file and at least one safe file, and archive creation, upload, share-link
  creation, the request for an email address and the notification all succeed; the ledger
  gets its new entry in that case and is untouched in every other. (The scheduler is left
  as \<^verbatim>\<open>schedule_deletion\<close> leaves it: with the entry appended to the ledger, which is a
  list unless a load has left an empty dict or string there.) When the scan reports an
  infected file, the job makes no archive, no upload, no share link and no ledger entry.
\<close>

theorem cleanup_scheduled_iff_all_stages_succeed:
  "(ScheduleCall r l \<in> set (fst (process_usb_drive co now wo dev sch))
    \<longleftrightarrow> (\<exists>mp scan zip addr.
         nonempty (mount_point dev) = Some mp \<and> path_exists co mp
         \<and> scan_directory co mp = Inr scan
         \<and> infected_files scan = [] \<and> safe_files scan \<noteq> []
         \<and> nonempty (create_zip co (safe_files scan)) = Some zip
         \<and> upload_file co zip = UploadOk r
         \<and> nonempty (create_public_share co r) = Some l
         \<and> nonempty (get_email_address co) = Some addr
         \<and> send_notification co addr l zip))
   \<and> (ScheduleCall r l \<in> set (fst (process_usb_drive co now wo dev sch)) \<longrightarrow>
        snd (process_usb_drive co now wo dev sch) = schedule_deletion r l now wo sch)
   \<and> (ScheduleCall r l \<in> set (fst (process_usb_drive co now wo dev sch))
        \<and> cleanup_schedule_type sch = PyList \<longrightarrow>
        cleanup_schedule (snd (process_usb_drive co now wo dev sch))
          = cleanup_schedule sch
            @ [\<lparr>file_path = r, download_link = l, upload_time = now, filename = basename r,
                delete_after_days = auto_delete_days sch\<rparr>])
   \<and> ((\<forall>r' l'. ScheduleCall r' l' \<notin> set (fst (process_usb_drive co now wo dev sch))) \<longrightarrow>
        snd (process_usb_drive co now wo dev sch) = sch)
   \<and> (\<forall>mp scan. nonempty (mount_point dev) = Some mp \<and> scan_directory co mp = Inr scan
        \<and> infected_files scan \<noteq> [] \<longrightarrow>
        (\<forall>a \<in> set (fst (process_usb_drive co now wo dev sch)). \<not> produces_artifact a)
        \<and> snd (process_usb_drive co now wo dev sch) = sch)"
  using process_scheduled_iff[of r l co now wo dev sch]
    process_ledger_scheduled[of r l co now wo dev sch]
    process_ledger_appended[of r l co now wo dev sch]
    process_ledger_unscheduled[of co now wo dev sch]
    process_infected_stops[of dev _ co _ now wo sch]
  by blast

theorem cleanup_scheduled_iff_all_stages_succeed_witness:
  "ScheduleCall ''USB/usb.zip'' ''https://cloud/s/x''
     \<in> set (fst (process_usb_drive (services_up clean_scan) jan1 Written sdb1 (scheduler_with [])))
   \<and> cleanup_schedule (snd (process_usb_drive (services_up clean_scan) jan1 Written sdb1
        (scheduler_with [])))
     = [\<lparr>file_path = ''USB/usb.zip'', download_link = ''https://cloud/s/x'', upload_time = jan1,
         filename = ''usb.zip'', delete_after_days = 7\<rparr>]
   \<and> nonempty (mount_point sdb1) = Some ''/media/usb''
   \<and> scan_directory (services_up infected_scan) ''/media/usb'' = Inr infected_scan
   \<and> infected_files infected_scan \<noteq> []
   \<and> list_all (\<lambda>a. \<not> produces_artifact a)
       (fst (process_usb_drive (services_up infected_scan) jan1 Written sdb1 (scheduler_with [])))
   \<and> snd (process_usb_drive (services_up infected_scan) jan1 Written sdb1 (scheduler_with []))
     = scheduler_with []"
proof -
  let ?good = "process_usb_drive (services_up clean_scan) jan1 Written sdb1 (scheduler_with [])"
  let ?bad = "process_usb_drive (services_up infected_scan) jan1 Written sdb1 (scheduler_with [])"
  note good = cleanup_scheduled_iff_all_stages_succeed[of "''USB/usb.zip''" "''https://cloud/s/x''"
      "services_up clean_scan" jan1 Written sdb1 "scheduler_with []"]
  note bad = cleanup_scheduled_iff_all_stages_succeed[of "''USB/usb.zip''" "''https://cloud/s/x''"
      "services_up infected_scan" jan1 Written sdb1 "scheduler_with []"]
  have mp: "nonempty (mount_point sdb1) = Some ''/media/usb''"
    by (simp add: sdb1_def)
  have stages: "\<exists>mp scan zip addr.
         nonempty (mount_point sdb1) = Some mp \<and> path_exists (services_up clean_scan) mp
         \<and> scan_directory (services_up clean_scan) mp = Inr scan
         \<and> infected_files scan = [] \<and> safe_files scan \<noteq> []
         \<and> nonempty (create_zip (services_up clean_scan) (safe_files scan)) = Some zip
         \<and> upload_file (services_up clean_scan) zip = UploadOk ''USB/usb.zip''
         \<and> nonempty (create_public_share (services_up clean_scan) ''USB/usb.zip'')
             = Some ''https://cloud/s/x''
         \<and> nonempty (get_email_address (services_up clean_scan)) = Some addr
         \<and> send_notification (services_up clean_scan) addr ''https://cloud/s/x'' zip"
    by (simp add: mp services_up_def clean_scan_def)
  have called: "ScheduleCall ''USB/usb.zip'' ''https://cloud/s/x'' \<in> set (fst ?good)"
    using good stages by blast
  then have added: "snd ?good = schedule_deletion ''USB/usb.zip'' ''https://cloud/s/x'' jan1 Written
      (scheduler_with [])"
    using good by blast
  have "cleanup_schedule (schedule_deletion ''USB/usb.zip'' ''https://cloud/s/x'' jan1 Written
      (scheduler_with []))
      = [\<lparr>file_path = ''USB/usb.zip'', download_link = ''https://cloud/s/x'', upload_time = jan1,
          filename = ''usb.zip'', delete_after_days = 7\<rparr>]"
    by (simp add: schedule_deletion_def schedule_deletion_error_def Let_def
        save_cleanup_schedule_def scheduler_with_def basename_def)
  then have ledger: "cleanup_schedule (snd ?good)
      = [\<lparr>file_path = ''USB/usb.zip'', download_link = ''https://cloud/s/x'', upload_time = jan1,
          filename = ''usb.zip'', delete_after_days = 7\<rparr>]"
    by (simp only: added)
  have sc: "scan_directory (services_up infected_scan) ''/media/usb'' = Inr infected_scan"
    by (simp add: services_up_def)
  have inf: "infected_files infected_scan \<noteq> []"
    by (simp add: infected_scan_def)
  have stop: "(\<forall>a \<in> set (fst ?bad). \<not> produces_artifact a) \<and> snd ?bad = scheduler_with []"
    using bad mp sc inf by blast
  then have "list_all (\<lambda>a. \<not> produces_artifact a) (fst ?bad)"
    by (simp add: list_all_iff)
  with called ledger mp sc inf stop show ?thesis
    by simp
qed

end
